theory Spec2Isabelle
  imports
    Complex_Main
    "HOL-Library.Char_ord"
    "HOL-Library.List_Lexorder"
    "HOL-Library.Product_Lexorder"
    "HOL-Library.Multiset"
begin

section \<open>JavaScript string primitives used by the schemas\<close>

text \<open>
  Strings are modelled as lists of 8-bit characters: the code units 0..255 of a
  JavaScript string (ASCII and Latin-1). Inside that range the character classes of the
  regular expressions and of \<^verbatim>\<open>String.prototype.trim\<close> are as follows.

  \<^item> \<^verbatim>\<open>\s\<close> matches TAB, LF, VT, FF, CR, SPACE and NO-BREAK SPACE;
  \<^item> \<^verbatim>\<open>[a-zA-Z0-9]\<close> matches the ASCII letters and digits;
  \<^item> \<^verbatim>\<open>toLowerCase\<close> maps A-Z and the Latin-1 capitals (all of 192..222 but the
    multiplication sign 215) 32 places up, and nothing else.
\<close>

definition isSpace :: "char \<Rightarrow> bool" where
  "isSpace c = (of_char c \<in> {9::nat, 10, 11, 12, 13, 32, 160})"

definition isLower :: "char \<Rightarrow> bool" where
  "isLower c = (97 \<le> (of_char c :: nat) \<and> (of_char c :: nat) \<le> 122)"

definition isUpper :: "char \<Rightarrow> bool" where
  "isUpper c = (65 \<le> (of_char c :: nat) \<and> (of_char c :: nat) \<le> 90)"

definition isDigit :: "char \<Rightarrow> bool" where
  "isDigit c = (48 \<le> (of_char c :: nat) \<and> (of_char c :: nat) \<le> 57)"

definition lowerChar :: "char \<Rightarrow> char" where
  "lowerChar c =
     (let n = (of_char c :: nat)
      in if (65 \<le> n \<and> n \<le> 90) \<or> (192 \<le> n \<and> n \<le> 222 \<and> n \<noteq> 215)
         then char_of (n + 32) else c)"

definition toLowerCase :: "string \<Rightarrow> string" where
  "toLowerCase s = map lowerChar s"

text \<open>\<^verbatim>\<open>.replace(/[^a-zA-Z0-9\s]/g, '')\<close>\<close>

definition removeNonAlnumSpace :: "string \<Rightarrow> string" where
  "removeNonAlnumSpace s = filter (\<lambda>c. isLower c \<or> isUpper c \<or> isDigit c \<or> isSpace c) s"

text \<open>\<^verbatim>\<open>.replace(/\s+/g, '-')\<close>: every maximal run of whitespace becomes one hyphen.\<close>

function replaceSpaceRuns :: "string \<Rightarrow> string" where
  "replaceSpaceRuns [] = []"
| "replaceSpaceRuns (c # cs) =
     (if isSpace c then CHR ''-'' # replaceSpaceRuns (dropWhile isSpace cs)
      else c # replaceSpaceRuns cs)"
  by pat_completeness auto
termination
  by (relation "measure length") (auto simp: length_dropWhile_le less_Suc_eq_le)

text \<open>\<^verbatim>\<open>.trim()\<close> removes whitespace, and only whitespace, from both ends.\<close>

definition trim :: "string \<Rightarrow> string" where
  "trim s = rev (dropWhile isSpace (rev (dropWhile isSpace s)))"

text \<open>
  \<^verbatim>\<open>.split(/\s+/)\<close>: the pieces between the maximal runs of whitespace. A run at the
  very start or the very end of the string leaves an empty piece there, and the empty
  string splits into one empty piece. The first argument is the piece being read,
  reversed.
\<close>

function splitSpaceRuns :: "string \<Rightarrow> string \<Rightarrow> string list" where
  "splitSpaceRuns acc [] = [rev acc]"
| "splitSpaceRuns acc (c # cs) =
     (if isSpace c then rev acc # splitSpaceRuns [] (dropWhile isSpace cs)
      else splitSpaceRuns (c # acc) cs)"
  by pat_completeness auto
termination
  by (relation "measure (\<lambda>(acc, s). length s)") (auto simp: length_dropWhile_le less_Suc_eq_le)

definition split :: "string \<Rightarrow> string list" where
  "split s = splitSpaceRuns [] s"

text \<open>\<^verbatim>\<open>.replace(/<[^>]*>/g, '')\<close>: a \<^verbatim>\<open><\<close> is removed together with everything up to
  the next \<^verbatim>\<open>>\<close>; a \<^verbatim>\<open><\<close> that is never closed stays.\<close>

function removeTags :: "string \<Rightarrow> string" where
  "removeTags [] = []"
| "removeTags (c # cs) =
     (if c = CHR ''<'' \<and> CHR ''>'' \<in> set cs
      then removeTags (tl (dropWhile (\<lambda>d. d \<noteq> CHR ''>'') cs))
      else c # removeTags cs)"
  by pat_completeness auto
termination
proof (relation "measure length")
  fix c :: char and cs :: string
  have "length (tl (dropWhile (\<lambda>d. d \<noteq> CHR ''>'') cs)) \<le> length cs"
    using length_dropWhile_le [of "\<lambda>d. d \<noteq> CHR ''>''" cs] by simp
  then show "(tl (dropWhile (\<lambda>d. d \<noteq> CHR ''>'') cs), c # cs) \<in> measure length"
    by simp
qed auto

text \<open>The decimal numeral of an integer, as string concatenation with a number writes it
  (for the integers below \<open>10\<^sup>2\<^sup>1\<close> in size, which every millisecond clock value is).\<close>

definition digitChar :: "nat \<Rightarrow> char" where
  "digitChar d = char_of (48 + d)"

function decimal :: "nat \<Rightarrow> string" where
  "decimal n = (if n < 10 then [digitChar n] else decimal (n div 10) @ [digitChar (n mod 10)])"
  by pat_completeness auto
termination
  by (relation "measure id") auto

declare decimal.simps [simp del]

definition numberToString :: "int \<Rightarrow> string" where
  "numberToString i = (if i < 0 then CHR ''-'' # decimal (nat (- i)) else decimal (nat i))"

text \<open>\<^verbatim>\<open>Math.ceil(a / b)\<close> on two counts; \<open>b\<close> is positive wherever it is used below.\<close>

definition ceilDiv :: "nat \<Rightarrow> nat \<Rightarrow> nat" where
  "ceilDiv a b = nat \<lceil>real a / real b\<rceil>"

section \<open>The Post schema\<close>

type_synonym objectId = string

datatype status = Draft | Published | Archived

record like =
  like_user :: objectId
  like_createdAt :: int

text \<open>
  The stored fields of a post that the hooks, methods and controllers below read or
  write. \<open>tags\<close>, \<open>featuredImage\<close>, \<open>seoMetadata\<close>, \<open>isEditorsPick\<close> and the two
  timestamps travel in the record's extension. Dates are millisecond clock values;
  \<open>null\<close> and \<open>undefined\<close> are \<open>None\<close>.
\<close>

record post =
  post_id :: objectId
  title :: string
  slug :: string
  content :: string
  excerpt :: "string option"
  author :: objectId
  category :: objectId
  status :: status
  publishedAt :: "int option"
  readTime :: nat
  views :: nat
  likes :: "like list"
  isFeatured :: bool
  allowComments :: bool

text \<open>The paths whose modification the document tracks (\<^verbatim>\<open>isModified\<close>).\<close>

datatype path = Title | Name | Content | Excerpt | Category | Status | Likes | Views | OtherPath

text \<open>The chain \<^verbatim>\<open>.toLowerCase().replace(...).replace(...).trim()\<close> of both slug hooks.\<close>

definition slugText :: "string \<Rightarrow> string" where
  "slugText s = trim (replaceSpaceRuns (removeNonAlnumSpace (toLowerCase s)))"

text \<open>
  The four \<^verbatim>\<open>pre('save')\<close> hooks of the post schema, in the order they are registered.
  \<open>modified\<close> is the set of modified paths, \<open>isNew\<close> tells a document that was never
  stored, \<open>now\<close> is the clock. The slug path is declared \<^verbatim>\<open>lowercase: true\<close>, so an
  assignment to it stores the lower-cased value.
\<close>

definition post_pre_save_slug :: "path set \<Rightarrow> bool \<Rightarrow> int \<Rightarrow> post \<Rightarrow> post" where
  "post_pre_save_slug modified isNew now p =
     (if Title \<in> modified \<or> isNew
      then p\<lparr>slug := toLowerCase (slugText (title p) @ ''-'' @ numberToString now)\<rparr>
      else p)"

definition falsyString :: "string option \<Rightarrow> bool" where
  "falsyString v = (case v of None \<Rightarrow> True | Some s \<Rightarrow> s = [])"

definition post_pre_save_excerpt :: "path set \<Rightarrow> post \<Rightarrow> post" where
  "post_pre_save_excerpt modified p =
     (if Content \<in> modified \<and> falsyString (excerpt p)
      then p\<lparr>excerpt := Some (take 150 (removeTags (content p)) @ ''...'')\<rparr>
      else p)"

definition post_pre_save_publishedAt :: "path set \<Rightarrow> int \<Rightarrow> post \<Rightarrow> post" where
  "post_pre_save_publishedAt modified now p =
     (if Status \<in> modified \<and> status p = Published \<and> publishedAt p = None
      then p\<lparr>publishedAt := Some now\<rparr>
      else p)"

definition wordsPerMinute :: nat where
  "wordsPerMinute = 200"

definition post_pre_save_readTime :: "path set \<Rightarrow> post \<Rightarrow> post" where
  "post_pre_save_readTime modified p =
     (if Content \<in> modified
      then (let wordCount = length (split (content p))
            in p\<lparr>readTime := ceilDiv wordCount wordsPerMinute\<rparr>)
      else p)"

definition post_save :: "path set \<Rightarrow> bool \<Rightarrow> int \<Rightarrow> post \<Rightarrow> post" where
  "post_save modified isNew now p =
     post_pre_save_readTime modified
       (post_pre_save_publishedAt modified now
         (post_pre_save_excerpt modified
           (post_pre_save_slug modified isNew now p)))"


text \<open>
  The schema's validators, which run before the hooks of a save and, with
  \<^verbatim>\<open>runValidators\<close>, on the paths of an update.
\<close>

definition validTitle :: "string \<Rightarrow> bool" where
  "validTitle t = (5 \<le> length t \<and> length t \<le> 200)"

definition validContent :: "string \<Rightarrow> bool" where
  "validContent c = (50 \<le> length c)"

definition validExcerpt :: "string option \<Rightarrow> bool" where
  "validExcerpt e = (case e of None \<Rightarrow> True | Some x \<Rightarrow> length x \<le> 300)"

record error =
  statusCode :: "nat option"
  message :: string

text \<open>
  \<^verbatim>\<open>Post.create\<close>: a new document is validated and saved; the paths it was given count
  as modified. The title path is declared \<^verbatim>\<open>trim: true\<close>.
\<close>

definition Post_create :: "post \<Rightarrow> int \<Rightarrow> error + post" where
  "Post_create p now =
     (let d = p\<lparr>title := trim (title p)\<rparr>
      in if validTitle (title d) \<and> validContent (content d) \<and> validExcerpt (excerpt d)
         then Inr (post_save
                ({Title, Content, Category, Status} \<union> (if excerpt d = None then {} else {Excerpt}))
                True now d)
         else Inl \<lparr>statusCode = None, message = ''Post validation failed''\<rparr>)"

text \<open>The virtual \<^verbatim>\<open>likeCount\<close> and the instance methods on the like list.\<close>

definition post_likeCount :: "post \<Rightarrow> nat" where
  "post_likeCount p = length (likes p)"

definition post_isLikedBy :: "objectId \<Rightarrow> post \<Rightarrow> bool" where
  "post_isLikedBy userId p = list_ex (\<lambda>l. like_user l = userId) (likes p)"

text \<open>
  \<^verbatim>\<open>toggleLike\<close> changes the like list and saves the document: \<open>modified\<close> and
  \<open>isNew\<close> are what the document tracked before the call. A pushed like takes its
  \<^verbatim>\<open>createdAt\<close> from the schema default \<^verbatim>\<open>Date.now\<close>.
\<close>

definition post_toggleLike :: "path set \<Rightarrow> bool \<Rightarrow> objectId \<Rightarrow> int \<Rightarrow> post \<Rightarrow> post" where
  "post_toggleLike modified isNew userId now p =
     (let existingLike = find (\<lambda>l. like_user l = userId) (likes p);
          p' = (if existingLike \<noteq> None
                then p\<lparr>likes := filter (\<lambda>l. like_user l \<noteq> userId) (likes p)\<rparr>
                else p\<lparr>likes := likes p @ [\<lparr>like_user = userId, like_createdAt = now\<rparr>]\<rparr>)
      in post_save (insert Likes modified) isNew now p')"

section \<open>The Category schema\<close>

record category =
  category_id :: objectId
  name :: string
  category_slug :: string
  isActive :: bool
  sortOrder :: int

definition category_pre_save_slug :: "path set \<Rightarrow> bool \<Rightarrow> category \<Rightarrow> category" where
  "category_pre_save_slug modified isNew c =
     (if Name \<in> modified \<or> isNew
      then c\<lparr>category_slug := toLowerCase (slugText (name c))\<rparr>
      else c)"

definition category_save :: "path set \<Rightarrow> bool \<Rightarrow> category \<Rightarrow> category" where
  "category_save modified isNew c = category_pre_save_slug modified isNew c"

section \<open>The Comment schema\<close>

record comment =
  comment_id :: objectId
  comment_content :: string
  comment_author :: objectId
  comment_post :: objectId
  parentComment :: "objectId option"
  isApproved :: bool
  isEdited :: bool
  editedAt :: "int option"
  comment_likes :: "like list"
  isReported :: bool
  reportCount :: nat
  comment_createdAt :: int

definition comment_pre_save_edited :: "path set \<Rightarrow> bool \<Rightarrow> int \<Rightarrow> comment \<Rightarrow> comment" where
  "comment_pre_save_edited modified isNew now c =
     (if Content \<in> modified \<and> \<not> isNew
      then c\<lparr>isEdited := True, editedAt := Some now\<rparr>
      else c)"

definition comment_save :: "path set \<Rightarrow> bool \<Rightarrow> int \<Rightarrow> comment \<Rightarrow> comment" where
  "comment_save modified isNew now c = comment_pre_save_edited modified isNew now c"

definition comment_likeCount :: "comment \<Rightarrow> nat" where
  "comment_likeCount c = length (comment_likes c)"

definition comment_isLikedBy :: "objectId \<Rightarrow> comment \<Rightarrow> bool" where
  "comment_isLikedBy userId c = list_ex (\<lambda>l. like_user l = userId) (comment_likes c)"

definition comment_toggleLike ::
  "path set \<Rightarrow> bool \<Rightarrow> objectId \<Rightarrow> int \<Rightarrow> comment \<Rightarrow> comment" where
  "comment_toggleLike modified isNew userId now c =
     (let existingLike = find (\<lambda>l. like_user l = userId) (comment_likes c);
          c' = (if existingLike \<noteq> None
                then c\<lparr>comment_likes := filter (\<lambda>l. like_user l \<noteq> userId) (comment_likes c)\<rparr>
                else c\<lparr>comment_likes :=
                         comment_likes c @ [\<lparr>like_user = userId, like_createdAt = now\<rparr>]\<rparr>)
      in comment_save (insert Likes modified) isNew now c')"

section \<open>The collections and the remove hooks\<close>

record store =
  posts :: "post list"
  comments :: "comment list"
  categories :: "category list"

text \<open>
  \<^verbatim>\<open>document.remove()\<close> runs the \<^verbatim>\<open>pre('remove')\<close> hook and then deletes the document
  itself. \<^verbatim>\<open>deleteMany\<close> deletes the matching documents directly: it runs no document
  hook on them.
\<close>

definition post_pre_remove :: "post \<Rightarrow> store \<Rightarrow> store" where
  "post_pre_remove p s = s\<lparr>comments := filter (\<lambda>c. comment_post c \<noteq> post_id p) (comments s)\<rparr>"

definition post_remove :: "post \<Rightarrow> store \<Rightarrow> store" where
  "post_remove p s =
     (let s' = post_pre_remove p s
      in s'\<lparr>posts := filter (\<lambda>q. post_id q \<noteq> post_id p) (posts s')\<rparr>)"

definition comment_pre_remove :: "comment \<Rightarrow> store \<Rightarrow> store" where
  "comment_pre_remove c s =
     s\<lparr>comments := filter (\<lambda>r. parentComment r \<noteq> Some (comment_id c)) (comments s)\<rparr>"

definition comment_remove :: "comment \<Rightarrow> store \<Rightarrow> store" where
  "comment_remove c s =
     (let s' = comment_pre_remove c s
      in s'\<lparr>comments := filter (\<lambda>r. comment_id r \<noteq> comment_id c) (comments s')\<rparr>)"

text \<open>The category hook counts first; an error handed to \<^verbatim>\<open>next\<close> stops the removal.\<close>

definition category_pre_remove :: "category \<Rightarrow> store \<Rightarrow> error option" where
  "category_pre_remove c s =
     (let postCount = length (filter (\<lambda>p. category p = category_id c \<and> status p \<noteq> Archived)
                                (posts s))
      in if postCount > 0
         then Some \<lparr>statusCode = Some 400,
                    message = ''Cannot delete category that has active posts. Please move or delete the posts first.''\<rparr>
         else None)"

definition category_remove :: "category \<Rightarrow> store \<Rightarrow> error option \<times> store" where
  "category_remove c s =
     (case category_pre_remove c s of
        Some e \<Rightarrow> (Some e, s)
      | None \<Rightarrow>
          (None, s\<lparr>categories := filter (\<lambda>d. category_id d \<noteq> category_id c) (categories s)\<rparr>))"


section \<open>Query helpers\<close>

text \<open>
  \<^verbatim>\<open>Comment.findByPost\<close>. An option that the caller leaves out is \<open>None\<close> and takes
  the default of the destructuring. \<open>sortBy\<close> is the field read for sorting and
  \<open>sortOrder\<close> is \<open>1\<close> (ascending) or \<open>-1\<close> (descending). The filter
  \<^verbatim>\<open>parentComment: null\<close> matches the comments without a parent. The store applies
  the skip before the limit, rejects a negative skip, and takes a limit of \<open>0\<close> as no
  limit. The populated author and parent are not modelled.
\<close>

datatype sortOrder = Ascending | Descending

record findOptions =
  opt_page :: "nat option"
  opt_limit :: "nat option"
  opt_sortBy :: "(comment \<Rightarrow> int) option"
  opt_sortOrder :: "sortOrder option"
  opt_includeReplies :: "bool option"

definition sortComments :: "(comment \<Rightarrow> int) \<Rightarrow> sortOrder \<Rightarrow> comment list \<Rightarrow> comment list" where
  "sortComments key order cs =
     (case order of
        Ascending \<Rightarrow> sort_key key cs
      | Descending \<Rightarrow> sort_key (\<lambda>c. - key c) cs)"

definition limitTo :: "nat \<Rightarrow> 'a list \<Rightarrow> 'a list" where
  "limitTo n xs = (if n = 0 then xs else take n xs)"

definition findByPost :: "objectId \<Rightarrow> findOptions \<Rightarrow> comment list \<Rightarrow> error + comment list" where
  "findByPost postId options cs =
     (let page = (case opt_page options of None \<Rightarrow> 1 | Some v \<Rightarrow> v);
          limit = (case opt_limit options of None \<Rightarrow> 10 | Some v \<Rightarrow> v);
          sortBy = (case opt_sortBy options of None \<Rightarrow> comment_createdAt | Some v \<Rightarrow> v);
          order = (case opt_sortOrder options of None \<Rightarrow> Descending | Some v \<Rightarrow> v);
          includeReplies = (case opt_includeReplies options of None \<Rightarrow> False | Some v \<Rightarrow> v);
          found = filter (\<lambda>c. comment_post c = postId \<and> isApproved c \<and>
                             (includeReplies \<or> parentComment c = None)) cs;
          skip = (int page - 1) * int limit
      in if skip < 0
         then Inl \<lparr>statusCode = None, message = ''Skip value must be non-negative''\<rparr>
         else Inr (limitTo limit (drop (nat skip) (sortComments sortBy order found))))"

definition findReplies :: "objectId \<Rightarrow> comment list \<Rightarrow> comment list" where
  "findReplies commentId cs =
     sort_key comment_createdAt
       (filter (\<lambda>c. parentComment c = Some commentId \<and> isApproved c) cs)"

text \<open>
  \<^verbatim>\<open>Category.withPostCounts\<close>, stage by stage. The \<^verbatim>\<open>$lookup\<close> leaves in \<open>posts\<close>
  the output of its sub-pipeline: \<^verbatim>\<open>$count\<close> emits one document holding the count when
  at least one post matched, and none otherwise.
\<close>

record categoryWithCount = category +
  postCount :: nat

definition lookupPosts :: "category \<Rightarrow> post list \<Rightarrow> nat list" where
  "lookupPosts c ps =
     (let matched = filter (\<lambda>p. status p = Published)
                      (filter (\<lambda>p. category p = category_id c) ps)
      in if matched = [] then [] else [length matched])"

definition addPostCount :: "category \<Rightarrow> nat list \<Rightarrow> categoryWithCount" where
  "addPostCount c counts =
     category.extend c
       (categoryWithCount.fields (case counts of [] \<Rightarrow> 0 | n # _ \<Rightarrow> n))"

definition withPostCounts :: "store \<Rightarrow> categoryWithCount list" where
  "withPostCounts s =
     sort_key (\<lambda>c. (sortOrder c, name c))
       (map (\<lambda>c. addPostCount c (lookupPosts c (posts s)))
          (filter isActive (categories s)))"

section \<open>The post controller\<close>

datatype 'a response = Success nat 'a | Failure nat string

text \<open>
  The pagination object of \<^verbatim>\<open>getAllPosts\<close>. \<open>page\<close> and \<open>limit\<close> are the numbers
  that the query parameters denote (absent: the defaults 1 and 10); \<open>totalCount\<close> is the
  count of the matching posts. A division by zero gives \<^verbatim>\<open>Infinity\<close>, or
  \<^verbatim>\<open>NaN\<close> for \<^verbatim>\<open>0 / 0\<close>; a comparison with \<^verbatim>\<open>NaN\<close> is false.
\<close>

datatype jsnumber = Finite int | Infinity | NaN

record pagination =
  currentPage :: nat
  totalPages :: jsnumber
  totalPosts :: nat
  hasNextPage :: bool
  hasPrevPage :: bool

definition ceilOfQuotient :: "nat \<Rightarrow> nat \<Rightarrow> jsnumber" where
  "ceilOfQuotient totalCount limit =
     (if limit = 0 then (if totalCount = 0 then NaN else Infinity)
      else Finite \<lceil>real totalCount / real limit\<rceil>)"

definition lessThanNumber :: "nat \<Rightarrow> jsnumber \<Rightarrow> bool" where
  "lessThanNumber page n =
     (case n of Finite k \<Rightarrow> int page < k | Infinity \<Rightarrow> True | NaN \<Rightarrow> False)"

definition getAllPosts_pagination :: "nat option \<Rightarrow> nat option \<Rightarrow> nat \<Rightarrow> pagination" where
  "getAllPosts_pagination pageParam limitParam totalCount =
     (let page = (case pageParam of None \<Rightarrow> 1 | Some v \<Rightarrow> v);
          limit = (case limitParam of None \<Rightarrow> 10 | Some v \<Rightarrow> v)
      in \<lparr>currentPage = page,
          totalPages = ceilOfQuotient totalCount limit,
          totalPosts = totalCount,
          hasNextPage = lessThanNumber page (ceilOfQuotient totalCount limit),
          hasPrevPage = (page > 1)\<rparr>)"

text \<open>
  The query object of \<^verbatim>\<open>getAllPosts\<close>: the status (default \<^verbatim>\<open>'published'\<close>) always
  filters; category, author and featured filter when given. \<open>regexTest\<close> stands for
  the store's case-insensitive regular-expression match of the search text. Of the
  response, the pagination object is modelled; the page of posts itself is not.
\<close>

definition statusName :: "status \<Rightarrow> string" where
  "statusName st = (case st of Draft \<Rightarrow> ''draft'' | Published \<Rightarrow> ''published'' | Archived \<Rightarrow> ''archived'')"

definition truthy :: "string option \<Rightarrow> bool" where
  "truthy v = (case v of None \<Rightarrow> False | Some x \<Rightarrow> x \<noteq> [])"

record listQuery =
  q_page :: "nat option"
  q_limit :: "nat option"
  q_category :: "objectId option"
  q_author :: "objectId option"
  q_status :: "string option"
  q_search :: "string option"
  q_featured :: "string option"

definition getAllPosts_matches ::
  "(string \<Rightarrow> string \<Rightarrow> bool) \<Rightarrow> listQuery \<Rightarrow> post \<Rightarrow> bool" where
  "getAllPosts_matches regexTest q p =
     (statusName (status p) = (case q_status q of None \<Rightarrow> ''published'' | Some v \<Rightarrow> v) \<and>
      (if truthy (q_category q) then Some (category p) = q_category q else True) \<and>
      (if truthy (q_author q) then Some (author p) = q_author q else True) \<and>
      (if q_featured q = Some ''true'' then isFeatured p else True) \<and>
      (if truthy (q_search q)
       then (regexTest (the (q_search q)) (title p) \<or>
             regexTest (the (q_search q)) (content p) \<or>
             (case excerpt p of None \<Rightarrow> False | Some e \<Rightarrow> regexTest (the (q_search q)) e))
       else True))"

definition getAllPosts :: "(string \<Rightarrow> string \<Rightarrow> bool) \<Rightarrow> listQuery \<Rightarrow> store \<Rightarrow> pagination" where
  "getAllPosts regexTest q s =
     (let totalCount = length (filter (getAllPosts_matches regexTest q) (posts s))
      in getAllPosts_pagination (q_page q) (q_limit q) totalCount)"

text \<open>
  \<^verbatim>\<open>getPost\<close>. \<open>isValid\<close> is the driver's \<^verbatim>\<open>ObjectId.isValid\<close> and \<open>castId\<close> the
  identifier that a string accepted by it denotes in a query on \<^verbatim>\<open>_id\<close>; neither is
  part of the repository, and both are parameters. The test is made on the identifier as
  it was given. The filter of \<^verbatim>\<open>findOne\<close> is cast through the schema, and the slug path
  is declared \<^verbatim>\<open>lowercase: true\<close>: the lookup by slug is a lookup of the lower-cased
  identifier. The view counter is incremented without being awaited: the response
  carries the post as it was read, the store holds the incremented counter.
\<close>

definition incrementViews :: "objectId \<Rightarrow> post list \<Rightarrow> post list" where
  "incrementViews pid ps = map (\<lambda>p. if post_id p = pid then p\<lparr>views := views p + 1\<rparr> else p) ps"

definition getPost ::
  "(string \<Rightarrow> bool) \<Rightarrow> (string \<Rightarrow> objectId) \<Rightarrow> string \<Rightarrow> store \<Rightarrow> post response \<times> store" where
  "getPost isValid castId identifier s =
     (let isObjectId = isValid identifier;
          query = (if isObjectId then (\<lambda>p. post_id p = castId identifier)
                   else (\<lambda>p. slug p = toLowerCase identifier))
      in case find query (posts s) of
           None \<Rightarrow> (Failure 404 ''Post not found'', s)
         | Some post \<Rightarrow>
             (Success 200 post, s\<lparr>posts := incrementViews (post_id post) (posts s)\<rparr>))"

text \<open>
  An instance of the validity test, for the examples: the strings of twenty-four
  hexadecimal digits.
\<close>

definition isHexDigit :: "char \<Rightarrow> bool" where
  "isHexDigit c =
     (isDigit c \<or> (97 \<le> (of_char c :: nat) \<and> (of_char c :: nat) \<le> 102)
                \<or> (65 \<le> (of_char c :: nat) \<and> (of_char c :: nat) \<le> 70))"

definition hexString24 :: "string \<Rightarrow> bool" where
  "hexString24 s = (length s = 24 \<and> list_all isHexDigit s)"

text \<open>
  \<^verbatim>\<open>updatePost\<close>. \<open>errors\<close> is what the request validation reports. A body field that
  is left out is \<open>None\<close>; the excerpt may also be given as \<^verbatim>\<open>null\<close> (\<open>Some None\<close>).
  \<^verbatim>\<open>findByIdAndUpdate\<close> sets the given paths on the stored document and, with
  \<^verbatim>\<open>runValidators\<close>, validates them; it is a query, and runs no \<^verbatim>\<open>pre('save')\<close>
  hook. A failed validation is caught and answered with 500. The body's \<open>tags\<close>,
  \<open>featuredImage\<close> and \<open>seoMetadata\<close> go to fields of the record's extension and
  are left out.
\<close>

record user =
  user_id :: objectId
  role :: string

record updateBody =
  b_title :: "string option"
  b_content :: "string option"
  b_excerpt :: "string option option"
  b_category :: "objectId option"
  b_status :: "string option"
  b_allowComments :: "bool option"

definition statusOfName :: "string \<Rightarrow> status option" where
  "statusOfName n =
     (if n = ''draft'' then Some Draft
      else if n = ''published'' then Some Published
      else if n = ''archived'' then Some Archived
      else None)"

definition update_valid :: "updateBody \<Rightarrow> bool" where
  "update_valid b =
     ((if truthy (b_title b) then validTitle (trim (the (b_title b))) else True) \<and>
      (if truthy (b_content b) then validContent (the (b_content b)) else True) \<and>
      (case b_excerpt b of None \<Rightarrow> True | Some e \<Rightarrow> validExcerpt e) \<and>
      (if truthy (b_status b) then statusOfName (the (b_status b)) \<noteq> None else True))"

definition update_apply :: "updateBody \<Rightarrow> post \<Rightarrow> post" where
  "update_apply b p =
     (let p1 = (if truthy (b_title b) then p\<lparr>title := trim (the (b_title b))\<rparr> else p);
          p2 = (if truthy (b_content b) then p1\<lparr>content := the (b_content b)\<rparr> else p1);
          p3 = (case b_excerpt b of None \<Rightarrow> p2 | Some e \<Rightarrow> p2\<lparr>excerpt := e\<rparr>);
          p4 = (if truthy (b_category b) then p3\<lparr>category := the (b_category b)\<rparr> else p3);
          p5 = (if truthy (b_status b)
                then (case statusOfName (the (b_status b)) of
                        None \<Rightarrow> p4 | Some st \<Rightarrow> p4\<lparr>status := st\<rparr>)
                else p4)
      in (case b_allowComments b of None \<Rightarrow> p5 | Some a \<Rightarrow> p5\<lparr>allowComments := a\<rparr>))"

definition findByIdAndUpdate :: "objectId \<Rightarrow> updateBody \<Rightarrow> store \<Rightarrow> error + (post option \<times> store)" where
  "findByIdAndUpdate pid b s =
     (if \<not> update_valid b
      then Inl \<lparr>statusCode = None, message = ''Validation failed''\<rparr>
      else Inr (map_option (update_apply b) (find (\<lambda>p. post_id p = pid) (posts s)),
                s\<lparr>posts := map (\<lambda>p. if post_id p = pid then update_apply b p else p) (posts s)\<rparr>))"

definition updatePost ::
  "string list \<Rightarrow> user \<Rightarrow> objectId \<Rightarrow> updateBody \<Rightarrow> store \<Rightarrow> post option response \<times> store" where
  "updatePost errors reqUser pid b s =
     (if errors \<noteq> [] then (Failure 400 ''Validation failed'', s)
      else case find (\<lambda>p. post_id p = pid) (posts s) of
        None \<Rightarrow> (Failure 404 ''Post not found'', s)
      | Some post \<Rightarrow>
          if author post \<noteq> user_id reqUser \<and> role reqUser \<noteq> ''admin''
          then (Failure 403 ''Not authorized to update this post'', s)
          else if truthy (b_category b) \<and> the (b_category b) \<noteq> category post \<and>
                  find (\<lambda>c. category_id c = the (b_category b)) (categories s) = None
          then (Failure 400 ''Invalid category selected'', s)
          else (case findByIdAndUpdate pid b s of
                  Inl e \<Rightarrow> (Failure 500 ''Server error while updating post'', s)
                | Inr (updatedPost, s') \<Rightarrow> (Success 200 updatedPost, s')))"

section \<open>The specification's wording, for comparison\<close>

text \<open>
  The specification describes the slug text as: lower-case the text, strip the
  characters outside \<^verbatim>\<open>[a-zA-Z0-9\s]\<close>, collapse each whitespace run to one hyphen,
  trim leading and trailing hyphens.
\<close>

definition spec_trimHyphens :: "string \<Rightarrow> string" where
  "spec_trimHyphens s =
     rev (dropWhile (\<lambda>c. c = CHR ''-'') (rev (dropWhile (\<lambda>c. c = CHR ''-'') s)))"

definition spec_slugText :: "string \<Rightarrow> string" where
  "spec_slugText s = spec_trimHyphens (replaceSpaceRuns (removeNonAlnumSpace (toLowerCase s)))"

text \<open>The specification's word count: the number of whitespace-separated words, that is
  of maximal runs of characters that are not whitespace.\<close>

function spec_wordCount :: "string \<Rightarrow> nat" where
  "spec_wordCount [] = 0"
| "spec_wordCount (c # cs) =
     (if isSpace c then spec_wordCount cs
      else Suc (spec_wordCount (dropWhile (\<lambda>d. \<not> isSpace d) cs)))"
  by pat_completeness auto
termination
  by (relation "measure length") (auto simp: length_dropWhile_le less_Suc_eq_le)

text \<open>The alphabet of a slug: \<^verbatim>\<open>[a-z0-9-]\<close>.\<close>

definition slugChar :: "char \<Rightarrow> bool" where
  "slugChar c = (isLower c \<or> isDigit c \<or> c = CHR ''-'')"

text \<open>A text that neither begins nor ends with whitespace.\<close>

definition noOuterSpace :: "string \<Rightarrow> bool" where
  "noOuterSpace s = (if s = [] then True else \<not> isSpace (hd s) \<and> \<not> isSpace (last s))"

text \<open>A like list in which every user appears at most once.\<close>

definition likesOnce :: "like list \<Rightarrow> bool" where
  "likesOnce ls = distinct (map like_user ls)"


section \<open>Example documents\<close>

definition examplePost :: post where
  "examplePost =
     \<lparr>post_id = ''p1'', title = ''Hello world !'', slug = [],
      content = ''Fifty characters of content are what the schema asks for.'',
      excerpt = None, author = ''u1'', category = ''c1'', status = Draft,
      publishedAt = None, readTime = 0, views = 0, likes = [],
      isFeatured = False, allowComments = True\<rparr>"

definition exampleCategory :: category where
  "exampleCategory =
     \<lparr>category_id = ''c1'', name = ''News !'', category_slug = [], isActive = True,
      sortOrder = 0\<rparr>"

definition exampleComment :: "objectId \<Rightarrow> objectId option \<Rightarrow> bool \<Rightarrow> int \<Rightarrow> comment" where
  "exampleComment cid parent approved created =
     \<lparr>comment_id = cid, comment_content = ''A comment'', comment_author = ''u2'',
      comment_post = ''p1'', parentComment = parent, isApproved = approved,
      isEdited = False, editedAt = None, comment_likes = [], isReported = False,
      reportCount = 0, comment_createdAt = created\<rparr>"

text \<open>One post with a top-level comment \<open>k1\<close>, its replies \<open>k2\<close> (approved) and
  \<open>k4\<close> (not approved), and \<open>k3\<close>, a reply to \<open>k2\<close>.\<close>

definition exampleStore :: store where
  "exampleStore =
     \<lparr>posts = [examplePost],
      comments = [exampleComment ''k3'' (Some ''k2'') True 30,
                  exampleComment ''k2'' (Some ''k1'') True 20,
                  exampleComment ''k1'' None True 10,
                  exampleComment ''k4'' (Some ''k1'') False 40],
      categories = [exampleCategory]\<rparr>"

text \<open>A text of \<open>n\<close> words, one space between two words.\<close>

definition wordsText :: "nat \<Rightarrow> string" where
  "wordsText n = concat (replicate (n - 1) ''word '') @ ''word''"

section \<open>Properties of the string primitives\<close>

text \<open>
  Lower-casing leaves no ASCII capital and fixes every character of the slug alphabet;
  the two replacements leave only characters of the slug alphabet, none of them
  whitespace, so that the final \<^verbatim>\<open>trim\<close> of the chain and the lower-casing of the
  slug path change nothing.
\<close>

lemma not_isUpper_lowerChar: "\<not> isUpper (lowerChar c)"
  by (auto simp: lowerChar_def isUpper_def Let_def)

lemma lowerChar_slugChar: "slugChar c \<Longrightarrow> lowerChar c = c"
  by (auto simp: lowerChar_def slugChar_def isLower_def isDigit_def Let_def)

lemma not_isSpace_hyphen: "\<not> isSpace CHR ''-''"
  by (simp add: isSpace_def)

lemma slugChar_hyphen: "slugChar CHR ''-''"
  by (simp add: slugChar_def)

lemma slugChar_not_isSpace: "slugChar c \<Longrightarrow> \<not> isSpace c"
  by (auto simp: slugChar_def isLower_def isDigit_def isSpace_def)

lemma set_stripped:
  "c \<in> set (removeNonAlnumSpace (toLowerCase s)) \<Longrightarrow> isLower c \<or> isDigit c \<or> isSpace c"
  using not_isUpper_lowerChar by (auto simp: removeNonAlnumSpace_def toLowerCase_def)

lemma set_replaceSpaceRuns:
  "c \<in> set (replaceSpaceRuns s) \<Longrightarrow> c = CHR ''-'' \<or> (c \<in> set s \<and> \<not> isSpace c)"
proof (induction s rule: replaceSpaceRuns.induct)
  case 1
  then show ?case by simp
next
  case (2 d ds)
  then show ?case
    by (auto split: if_splits dest: set_dropWhileD)
qed

lemma slugChar_collapsed:
  assumes "c \<in> set (replaceSpaceRuns (removeNonAlnumSpace (toLowerCase s)))"
  shows "slugChar c"
proof -
  from set_replaceSpaceRuns [OF assms]
  have "c = CHR ''-'' \<or> (c \<in> set (removeNonAlnumSpace (toLowerCase s)) \<and> \<not> isSpace c)" .
  then show ?thesis
    using set_stripped [of c s] by (auto simp: slugChar_def)
qed

lemma trim_no_space: "\<forall>c \<in> set s. \<not> isSpace c \<Longrightarrow> trim s = s"
proof -
  assume a: "\<forall>c \<in> set s. \<not> isSpace c"
  then have "dropWhile isSpace s = s"
    by (cases s) auto
  moreover have "dropWhile isSpace (rev s) = rev s"
  proof (cases "rev s")
    case Nil
    then show ?thesis by simp
  next
    case (Cons c cs)
    then have "c \<in> set (rev s)" by simp
    then have "c \<in> set s" by simp
    with a have "\<not> isSpace c" by blast
    with Cons show ?thesis by simp
  qed
  ultimately show ?thesis by (simp add: trim_def)
qed

lemma slugText_eq: "slugText s = replaceSpaceRuns (removeNonAlnumSpace (toLowerCase s))"
  unfolding slugText_def
  by (rule trim_no_space) (auto dest: slugChar_collapsed slugChar_not_isSpace)

text \<open>
  The decimal numeral has digits only and determines its number.
\<close>

lemma digitChar_digit: "d < 10 \<Longrightarrow> isDigit (digitChar d)"
  by (simp add: digitChar_def isDigit_def)

lemma of_char_digitChar: "d < 10 \<Longrightarrow> of_char (digitChar d) = 48 + d"
  by (simp add: digitChar_def)

lemma set_decimal: "c \<in> set (decimal n) \<Longrightarrow> isDigit c"
proof (induction n rule: decimal.induct)
  case (1 n)
  show ?case
  proof (cases "n < 10")
    case True
    with "1.prems" show ?thesis
      by (simp add: decimal.simps [of n] digitChar_digit)
  next
    case False
    then have "decimal n = decimal (n div 10) @ [digitChar (n mod 10)]"
      by (subst decimal.simps) simp
    with "1.prems" have "c \<in> set (decimal (n div 10)) \<or> c = digitChar (n mod 10)"
      by auto
    then show ?thesis
    proof
      assume "c \<in> set (decimal (n div 10))"
      with False "1.IH" show ?thesis by simp
    next
      assume "c = digitChar (n mod 10)"
      then show ?thesis by (simp add: digitChar_digit)
    qed
  qed
qed

lemma undecimal_decimal:
  "foldl (\<lambda>a c. 10 * a + (of_char c - 48)) 0 (decimal n) = n"
proof (induction n rule: decimal.induct)
  case (1 n)
  show ?case
  proof (cases "n < 10")
    case True
    then show ?thesis
      by (simp add: decimal.simps [of n] of_char_digitChar)
  next
    case False
    with "1.IH" show ?thesis
      by (simp add: decimal.simps [of n] of_char_digitChar)
  qed
qed

lemma decimal_inject: "decimal a = decimal b \<Longrightarrow> a = b"
  by (metis undecimal_decimal)

lemma not_isDigit_hyphen: "\<not> isDigit CHR ''-''"
  by (simp add: isDigit_def)

lemma numberToString_inject:
  assumes "numberToString a = numberToString b"
  shows "a = b"
proof -
  have h: "decimal n \<noteq> CHR ''-'' # xs" for n xs
  proof
    assume e: "decimal n = CHR ''-'' # xs"
    have "CHR ''-'' \<in> set (decimal n)" by (simp add: e)
    then show False using set_decimal not_isDigit_hyphen by blast
  qed
  show ?thesis
  proof (cases "a < 0")
    case True
    show ?thesis
    proof (cases "b < 0")
      case True
      with \<open>a < 0\<close> assms have "nat (- a) = nat (- b)"
        by (simp add: numberToString_def decimal_inject)
      with True \<open>a < 0\<close> show ?thesis by simp
    next
      case False
      with \<open>a < 0\<close> assms h [of "nat b" "decimal (nat (- a))"] show ?thesis
        by (simp add: numberToString_def)
    qed
  next
    case False
    show ?thesis
    proof (cases "b < 0")
      case True
      with \<open>\<not> a < 0\<close> assms h [of "nat a" "decimal (nat (- b))"] show ?thesis
        by (simp add: numberToString_def)
    next
      case False
      with \<open>\<not> a < 0\<close> assms have "nat a = nat b"
        by (simp add: numberToString_def decimal_inject)
      with False \<open>\<not> a < 0\<close> show ?thesis by simp
    qed
  qed
qed

lemma slugChar_numberToString: "c \<in> set (numberToString i) \<Longrightarrow> slugChar c"
  by (auto simp: numberToString_def slugChar_def dest: set_decimal split: if_splits)

lemma slugChar_suffixed:
  "c \<in> set (slugText s @ ''-'' @ numberToString i) \<Longrightarrow> slugChar c"
  by (auto simp: slugText_eq slugChar_hyphen dest: slugChar_collapsed slugChar_numberToString)

lemma toLowerCase_slugChars: "\<forall>c \<in> set s. slugChar c \<Longrightarrow> toLowerCase s = s"
  by (simp add: toLowerCase_def lowerChar_slugChar map_idI)

text \<open>
  Where the text neither begins nor ends with whitespace, the collapsed text neither
  begins nor ends with a hyphen.
\<close>

lemma last_dropWhile:
  "xs \<noteq> [] \<Longrightarrow> \<not> P (last xs) \<Longrightarrow> dropWhile P xs \<noteq> [] \<and> last (dropWhile P xs) = last xs"
  by (induction xs) (auto split: if_splits)

lemma last_replaceSpaceRuns:
  "s \<noteq> [] \<Longrightarrow> \<not> isSpace (last s) \<Longrightarrow>
   replaceSpaceRuns s \<noteq> [] \<and> last (replaceSpaceRuns s) = last s"
proof (induction s rule: replaceSpaceRuns.induct)
  case 1
  then show ?case by simp
next
  case (2 c cs)
  show ?case
  proof (cases "isSpace c")
    case True
    with "2.prems" have cs: "cs \<noteq> []" "\<not> isSpace (last cs)"
      by (auto split: if_splits)
    from cs last_dropWhile [of cs isSpace]
    have d: "dropWhile isSpace cs \<noteq> []" "last (dropWhile isSpace cs) = last cs"
      by simp_all
    with "2.IH"(1) [OF True] cs have
      "replaceSpaceRuns (dropWhile isSpace cs) \<noteq> [] \<and>
       last (replaceSpaceRuns (dropWhile isSpace cs)) = last cs"
      by simp
    with True cs show ?thesis by simp
  next
    case False
    show ?thesis
    proof (cases "cs = []")
      case True
      with False show ?thesis by simp
    next
      case ne: False
      with "2.prems" have "\<not> isSpace (last cs)" by simp
      with "2.IH"(2) [OF False ne] have
        "replaceSpaceRuns cs \<noteq> [] \<and> last (replaceSpaceRuns cs) = last cs" by simp
      with False ne show ?thesis by simp
    qed
  qed
qed

lemma hd_replaceSpaceRuns:
  "s \<noteq> [] \<Longrightarrow> \<not> isSpace (hd s) \<Longrightarrow> hd (replaceSpaceRuns s) = hd s"
  by (cases s) auto

lemma spec_trimHyphens_id:
  assumes "s = [] \<or> (hd s \<noteq> CHR ''-'' \<and> last s \<noteq> CHR ''-'')"
  shows "spec_trimHyphens s = s"
proof (cases "s = []")
  case True
  then show ?thesis by (simp add: spec_trimHyphens_def)
next
  case False
  with assms have h: "hd s \<noteq> CHR ''-''" and l: "last s \<noteq> CHR ''-''" by simp_all
  from False h have a: "dropWhile (\<lambda>c. c = CHR ''-'') s = s"
    by (cases s) auto
  from False l have "hd (rev s) \<noteq> CHR ''-''" by (simp add: hd_rev)
  with False have b: "dropWhile (\<lambda>c. c = CHR ''-'') (rev s) = rev s"
    by (cases "rev s") auto
  from a b show ?thesis by (simp add: spec_trimHyphens_def)
qed

lemma slugText_spec:
  assumes "noOuterSpace (removeNonAlnumSpace (toLowerCase s))"
  shows "slugText s = spec_slugText s"
proof -
  let ?x = "removeNonAlnumSpace (toLowerCase s)"
  have nh: "c \<in> set ?x \<Longrightarrow> c \<noteq> CHR ''-''" for c
    using set_stripped [of c s] by (auto simp: isLower_def isDigit_def isSpace_def)
  have "spec_trimHyphens (replaceSpaceRuns ?x) = replaceSpaceRuns ?x"
  proof (cases "?x = []")
    case True
    then show ?thesis by (simp add: spec_trimHyphens_def)
  next
    case False
    with assms have h: "\<not> isSpace (hd ?x)" and l: "\<not> isSpace (last ?x)"
      by (simp_all add: noOuterSpace_def)
    from False have "hd ?x \<in> set ?x" "last ?x \<in> set ?x" by simp_all
    with nh have "hd ?x \<noteq> CHR ''-''" "last ?x \<noteq> CHR ''-''" by blast+
    with hd_replaceSpaceRuns [OF False h] last_replaceSpaceRuns [OF False l]
    show ?thesis by (intro spec_trimHyphens_id) simp
  qed
  then show ?thesis by (simp add: slugText_eq spec_slugText_def)
qed

text \<open>
  The number of pieces of \<^verbatim>\<open>split(/\s+/)\<close> is the number of words, and one more for
  whitespace at the start, and one more for whitespace at the end (or for the empty
  string).
\<close>

lemma spec_wordCount_dropWhile_space: "spec_wordCount (dropWhile isSpace s) = spec_wordCount s"
  by (induction s) auto

lemma trailing_dropWhile_space:
  "isSpace c \<Longrightarrow>
   (dropWhile isSpace cs = [] \<or> isSpace (last (dropWhile isSpace cs))) = isSpace (last (c # cs))"
  by (induction cs arbitrary: c) auto

lemma leading_dropWhile_space:
  "\<not> (dropWhile isSpace cs \<noteq> [] \<and> isSpace (hd (dropWhile isSpace cs)))"
  using hd_dropWhile [of isSpace cs] by blast

lemma length_splitSpaceRuns:
  "length (splitSpaceRuns acc s) =
     spec_wordCount s + (if s = [] \<or> isSpace (last s) then 1 else 0)
                      + (if s \<noteq> [] \<and> isSpace (hd s) then 1 else 0)"
proof (induction acc s rule: splitSpaceRuns.induct)
  case (1 acc)
  show ?case by simp
next
  case (2 acc c cs)
  show ?case
  proof (cases "isSpace c")
    case True
    have "length (splitSpaceRuns acc (c # cs)) =
          Suc (length (splitSpaceRuns [] (dropWhile isSpace cs)))"
      using True by simp
    also have "\<dots> = Suc (spec_wordCount (dropWhile isSpace cs) +
        (if dropWhile isSpace cs = [] \<or> isSpace (last (dropWhile isSpace cs)) then 1 else 0))"
      using "2.IH"(1) [OF True] leading_dropWhile_space [of cs] by simp
    also have "\<dots> = Suc (spec_wordCount cs + (if isSpace (last (c # cs)) then 1 else 0))"
      using trailing_dropWhile_space [OF True, of cs]
      by (simp only: spec_wordCount_dropWhile_space)
    finally show ?thesis using True by simp
  next
    case False
    have ih: "length (splitSpaceRuns acc (c # cs)) =
        spec_wordCount cs + (if cs = [] \<or> isSpace (last cs) then 1 else 0)
                          + (if cs \<noteq> [] \<and> isSpace (hd cs) then 1 else 0)"
      using False "2.IH"(2) [OF False] by simp
    show ?thesis
    proof (cases cs)
      case Nil
      with ih False show ?thesis by simp
    next
      case (Cons d ds)
      show ?thesis
      proof (cases "isSpace d")
        case True
        with ih False Cons show ?thesis by simp
      next
        case nd: False
        with ih False Cons show ?thesis by simp
      qed
    qed
  qed
qed

lemma length_split_words:
  assumes "s \<noteq> []" and "noOuterSpace s"
  shows "length (split s) = spec_wordCount s"
  using assms by (simp add: split_def length_splitSpaceRuns noOuterSpace_def)

lemma isSpace_word_chars:
  "\<not> isSpace CHR ''w''" "\<not> isSpace CHR ''o''" "\<not> isSpace CHR ''r''" "\<not> isSpace CHR ''d''"
  "isSpace CHR '' ''" "isSpace CHR 0x0A"
  by (simp_all add: isSpace_def)

lemma spec_wordCount_words:
  "spec_wordCount (concat (replicate k ''word '') @ s) = k + spec_wordCount s"
  by (induction k) (simp_all add: isSpace_word_chars)

lemma length_words: "length (concat (replicate k ''word '')) = 5 * k"
  by (induction k) simp_all

lemma hd_words: "hd (concat (replicate k ''word '') @ ''word'' @ s) = CHR ''w''"
  by (cases k) simp_all

lemma wordsText_facts:
  "spec_wordCount (wordsText n) = Suc (n - 1)"
  "spec_wordCount (wordsText n @ [CHR 0x0A]) = Suc (n - 1)"
  "length (wordsText n) = 5 * (n - 1) + 4"
  "wordsText n \<noteq> []"
  "hd (wordsText n) = CHR ''w''"
  "hd (wordsText n @ [CHR 0x0A]) = CHR ''w''"
  "last (wordsText n) = CHR ''d''"
  using hd_words [of "n - 1" "[]"] hd_words [of "n - 1" "[CHR 0x0A]"]
  by (simp_all add: wordsText_def spec_wordCount_words isSpace_word_chars length_words)

lemma split_wordsText:
  "length (split (wordsText n)) = Suc (n - 1)"
  "length (split (wordsText n @ [CHR 0x0A])) = Suc (Suc (n - 1))"
  by (simp_all add: split_def length_splitSpaceRuns wordsText_facts isSpace_word_chars)

section \<open>What a save writes\<close>

lemma slug_post_save:
  "slug (post_save m n now p) =
     (if Title \<in> m \<or> n then slugText (title p) @ ''-'' @ numberToString now else slug p)"
proof -
  have "toLowerCase (slugText (title p) @ ''-'' @ numberToString now) =
        slugText (title p) @ ''-'' @ numberToString now"
    by (rule toLowerCase_slugChars) (blast dest: slugChar_suffixed)
  then show ?thesis
    by (simp add: post_save_def post_pre_save_readTime_def post_pre_save_publishedAt_def
      post_pre_save_excerpt_def post_pre_save_slug_def Let_def)
qed

lemma category_slug_category_save:
  "category_slug (category_save m n c) =
     (if Name \<in> m \<or> n then slugText (name c) else category_slug c)"
proof -
  have "toLowerCase (slugText (name c)) = slugText (name c)"
    by (rule toLowerCase_slugChars) (auto simp: slugText_eq dest: slugChar_collapsed)
  then show ?thesis
    by (simp add: category_save_def category_pre_save_slug_def)
qed

lemma publishedAt_post_save:
  "publishedAt (post_save m n now p) =
     (if Status \<in> m \<and> status p = Published \<and> publishedAt p = None then Some now
      else publishedAt p)"
proof -
  have a: "publishedAt (post_pre_save_readTime m q) = publishedAt q" for q
    by (simp add: post_pre_save_readTime_def Let_def)
  have b: "publishedAt (post_pre_save_excerpt m q) = publishedAt q \<and>
           status (post_pre_save_excerpt m q) = status q" for q
    by (simp add: post_pre_save_excerpt_def)
  have c: "publishedAt (post_pre_save_slug m n now q) = publishedAt q \<and>
           status (post_pre_save_slug m n now q) = status q" for q
    by (simp add: post_pre_save_slug_def)
  show ?thesis
    by (simp add: post_save_def a post_pre_save_publishedAt_def b c)
qed

lemma publishedAt_post_save_once:
  "publishedAt p = Some t \<Longrightarrow> publishedAt (post_save m n now p) = Some t"
  by (simp add: publishedAt_post_save)

lemma readTime_post_save:
  "readTime (post_save m n now p) =
     (if Content \<in> m then ceilDiv (length (split (content p))) 200 else readTime p)"
  by (simp add: post_save_def post_pre_save_readTime_def post_pre_save_publishedAt_def
      post_pre_save_excerpt_def post_pre_save_slug_def Let_def wordsPerMinute_def)

lemma likes_post_save: "likes (post_save m n t p) = likes p"
  by (simp add: post_save_def post_pre_save_readTime_def post_pre_save_publishedAt_def
      post_pre_save_excerpt_def post_pre_save_slug_def Let_def)

lemma comment_likes_comment_save: "comment_likes (comment_save m n t c) = comment_likes c"
  by (simp add: comment_save_def comment_pre_save_edited_def)

lemma readTime_Post_create:
  assumes "validTitle (trim (title p))" and "validContent (content p)"
    and "validExcerpt (excerpt p)"
  shows "map_sum message readTime (Post_create p now) =
           Inr (ceilDiv (length (split (content p))) 200)"
  using assms by (simp add: Post_create_def Let_def readTime_post_save)

lemma examplePost_valid:
  "validTitle (trim (title (examplePost\<lparr>content := c\<rparr>)))"
  "validExcerpt (excerpt (examplePost\<lparr>content := c\<rparr>))"
  by (simp_all add: examplePost_def validTitle_def validExcerpt_def trim_def isSpace_def)

section \<open>The publication date (C1)\<close>

text \<open>
  The update controller writes the given paths through \<^verbatim>\<open>findByIdAndUpdate\<close>, which
  runs none of the save hooks: whatever the body, the publication date stays as it was.
\<close>

lemma publishedAt_update_apply: "publishedAt (update_apply b p) = publishedAt p"
  by (simp add: update_apply_def Let_def split: option.split)

text \<open>
  Claim C1: on both write paths, an operation that changes the status to published
  while \<open>publishedAt\<close> is null sets \<open>publishedAt\<close> to the current time, and later
  updates leave it unchanged. The save path does so (\<open>publishedAt_post_save\<close>,
  \<open>publishedAt_post_save_once\<close>). The update controller does not: the author
  publishes the draft \<open>examplePost\<close> with the body \<^verbatim>\<open>{status: 'published'}\<close>; the
  answer is 200, the stored post is published, and its \<open>publishedAt\<close> is still null,
  where a save of the same change at the clock value 1000 stores 1000.
\<close>

theorem updatePost_publish_leaves_publishedAt_null:
  "updatePost [] \<lparr>user_id = ''u1'', role = ''user''\<rparr> ''p1''
     \<lparr>b_title = None, b_content = None, b_excerpt = None, b_category = None,
      b_status = Some ''published'', b_allowComments = None\<rparr> exampleStore =
     (Success 200 (Some (examplePost\<lparr>status := Published\<rparr>)),
      exampleStore\<lparr>posts := [examplePost\<lparr>status := Published\<rparr>]\<rparr>) \<and>
   status examplePost = Draft \<and> publishedAt examplePost = None \<and>
   publishedAt (examplePost\<lparr>status := Published\<rparr>) = None \<and>
   publishedAt (post_save {Status} False 1000 (examplePost\<lparr>status := Published\<rparr>)) = Some 1000"
  by code_simp

section \<open>Slugs (C2)\<close>

text \<open>
  Claim C2, as amended. On creation, or when the defining field was modified, and for a
  title or name whose text, once lower-cased and stripped of the characters outside
  \<^verbatim>\<open>[a-zA-Z0-9\s]\<close>, neither begins nor ends with whitespace, the stored slug is the
  text that the specification describes; a post slug is that text followed by a hyphen
  and the decimal clock value, so that two posts of one title saved at different clock
  values get different slugs, and a category slug has no suffix. Every post slug, of any
  title, is made of \<^verbatim>\<open>[a-z0-9-]\<close> only. A save that neither creates the document nor
  finds the defining field modified keeps the slug.
\<close>

theorem slug_generation:
  "(Title \<in> m \<or> n \<longrightarrow>
      (\<forall>ch \<in> set (slug (post_save m n now p)). slugChar ch) \<and>
      (noOuterSpace (removeNonAlnumSpace (toLowerCase (title p))) \<longrightarrow>
         slug (post_save m n now p) = spec_slugText (title p) @ ''-'' @ numberToString now) \<and>
      ((Title \<in> m' \<or> n') \<and> title p' = title p \<and> now' \<noteq> now \<longrightarrow>
         slug (post_save m' n' now' p') \<noteq> slug (post_save m n now p))) \<and>
   (Title \<notin> m \<and> \<not> n \<longrightarrow> slug (post_save m n now p) = slug p) \<and>
   (Name \<in> k \<or> n \<longrightarrow>
      (noOuterSpace (removeNonAlnumSpace (toLowerCase (name c))) \<longrightarrow>
         category_slug (category_save k n c) = spec_slugText (name c))) \<and>
   (Name \<notin> k \<and> \<not> n \<longrightarrow> category_slug (category_save k n c) = category_slug c)"
proof -
  have a: "\<forall>ch \<in> set (slug (post_save m n now p)). slugChar ch" if "Title \<in> m \<or> n"
  proof
    fix ch
    assume "ch \<in> set (slug (post_save m n now p))"
    with that have "ch \<in> set (slugText (title p) @ ''-'' @ numberToString now)"
      by (simp only: slug_post_save if_True)
    then show "slugChar ch" by (rule slugChar_suffixed)
  qed
  have b: "slug (post_save m n now p) = spec_slugText (title p) @ ''-'' @ numberToString now"
    if "Title \<in> m \<or> n" and "noOuterSpace (removeNonAlnumSpace (toLowerCase (title p)))"
    using that by (simp add: slug_post_save slugText_spec)
  have c: "slug (post_save m' n' now' p') \<noteq> slug (post_save m n now p)"
    if "Title \<in> m \<or> n" and "Title \<in> m' \<or> n'" and "title p' = title p" and "now' \<noteq> now"
  proof
    assume "slug (post_save m' n' now' p') = slug (post_save m n now p)"
    with that have "numberToString now' = numberToString now"
      by (simp add: slug_post_save)
    then have "now' = now" by (rule numberToString_inject)
    with that show False by simp
  qed
  have d: "slug (post_save m n now p) = slug p" if "Title \<notin> m \<and> \<not> n"
    using that by (simp add: slug_post_save)
  have e: "category_slug (category_save k n c) = spec_slugText (name c)"
    if "Name \<in> k \<or> n" and "noOuterSpace (removeNonAlnumSpace (toLowerCase (name c)))"
    using that by (simp add: category_slug_category_save slugText_spec)
  have f: "category_slug (category_save k n c) = category_slug c" if "Name \<notin> k \<and> \<not> n"
    using that by (simp add: category_slug_category_save)
  show ?thesis
    using a b c d e f by (intro conjI impI) blast+
qed

text \<open>
  The claim as it was stated fails. The title \<^verbatim>\<open>Hello world !\<close> (and the category
  name \<^verbatim>\<open>News !\<close>) ends, once stripped, with a space, which becomes a hyphen that
  nothing trims; and two posts of one title saved at the same clock value get the same
  slug.
\<close>

theorem slug_generation_counterexample:
  "slug (post_save {Title} True 1000 examplePost) = ''hello-world--1000'' \<and>
   spec_slugText (title examplePost) @ ''-'' @ numberToString 1000 = ''hello-world-1000'' \<and>
   category_slug (category_save {Name} True exampleCategory) = ''news-'' \<and>
   spec_slugText (name exampleCategory) = ''news'' \<and>
   post_id (examplePost\<lparr>post_id := ''p2''\<rparr>) \<noteq> post_id examplePost \<and>
   title (examplePost\<lparr>post_id := ''p2''\<rparr>) = title examplePost \<and>
   slug (post_save {Title} True 1000 (examplePost\<lparr>post_id := ''p2''\<rparr>)) =
     slug (post_save {Title} True 1000 examplePost)"
  by code_simp

theorem slug_generation_witness:
  "(Title \<in> {Title} \<or> True) \<and>
   noOuterSpace (removeNonAlnumSpace (toLowerCase (title (examplePost\<lparr>title := ''Hello,  World''\<rparr>)))) \<and>
   (Name \<in> {Name} \<or> True) \<and>
   noOuterSpace (removeNonAlnumSpace (toLowerCase (name (exampleCategory\<lparr>name := ''Web Dev''\<rparr>)))) \<and>
   (1001::int) \<noteq> 1000 \<and>
   slug (post_save {Title} True 1000 (examplePost\<lparr>title := ''Hello,  World''\<rparr>)) = ''hello-world-1000'' \<and>
   slug (post_save {Title} True 1001 (examplePost\<lparr>title := ''Hello,  World''\<rparr>)) \<noteq>
     slug (post_save {Title} True 1000 (examplePost\<lparr>title := ''Hello,  World''\<rparr>)) \<and>
   category_slug (category_save {Name} True (exampleCategory\<lparr>name := ''Web Dev''\<rparr>)) = ''web-dev''"
proof -
  let ?p = "examplePost\<lparr>title := ''Hello,  World''\<rparr>"
  let ?c = "exampleCategory\<lparr>name := ''Web Dev''\<rparr>"
  have h1: "Title \<in> {Title} \<or> True" by simp
  have h2: "noOuterSpace (removeNonAlnumSpace (toLowerCase (title ?p)))" by code_simp
  have h3: "Name \<in> {Name} \<or> True" by simp
  have h4: "noOuterSpace (removeNonAlnumSpace (toLowerCase (name ?c)))" by code_simp
  have h5: "(1001::int) \<noteq> 1000" by simp
  have e1: "spec_slugText (title ?p) @ ''-'' @ numberToString 1000 = ''hello-world-1000''"
    by code_simp
  have e2: "spec_slugText (name ?c) = ''web-dev''" by code_simp
  note t = slug_generation [where m = "{Title}" and n = True and now = 1000 and p = ?p
      and m' = "{Title}" and n' = True and now' = 1001 and p' = ?p
      and k = "{Name}" and c = ?c]
  from t h1 h2 e1 have c1: "slug (post_save {Title} True 1000 ?p) = ''hello-world-1000''"
    by simp
  from t h1 h5 have c2: "slug (post_save {Title} True 1001 ?p) \<noteq> slug (post_save {Title} True 1000 ?p)"
    by simp
  from t h3 h4 e2 have c3: "category_slug (category_save {Name} True ?c) = ''web-dev''"
    by simp
  from h1 h2 h3 h4 h5 c1 c2 c3 show ?thesis by (intro conjI)
qed

section \<open>Likes (C3)\<close>

lemma find_user_None: "(find (\<lambda>l. like_user l = u) ls = None) = (u \<notin> like_user ` set ls)"
  by (auto simp: find_None_iff)

lemma find_user_Some:
  "(\<exists>y. find (\<lambda>l. like_user l = u) ls = Some y) = (u \<in> like_user ` set ls)"
  using find_user_None [of u ls] by auto

lemma list_ex_user: "list_ex (\<lambda>l. like_user l = u) ls = (u \<in> like_user ` set ls)"
  by (auto simp: list_ex_iff)

lemma length_filter_other_users:
  "distinct (map like_user ls) \<Longrightarrow> u \<in> like_user ` set ls \<Longrightarrow>
   Suc (length (filter (\<lambda>l. like_user l \<noteq> u) ls)) = length ls"
proof (induction ls)
  case Nil
  then show ?case by simp
next
  case (Cons l ls)
  show ?case
  proof (cases "like_user l = u")
    case True
    with Cons.prems have "u \<notin> like_user ` set ls" by auto
    then have "filter (\<lambda>l. like_user l \<noteq> u) ls = ls"
      by (auto simp: filter_id_conv)
    with True show ?thesis by simp
  next
    case False
    with Cons show ?thesis by auto
  qed
qed

lemma filter_absent_user:
  "u \<notin> like_user ` set ls \<Longrightarrow> filter (\<lambda>l. like_user l \<noteq> u) ls = ls"
  by (auto simp: filter_id_conv)

lemma likes_post_toggleLike:
  "likes (post_toggleLike m n u t p) =
     (if u \<in> like_user ` set (likes p) then filter (\<lambda>l. like_user l \<noteq> u) (likes p)
      else likes p @ [\<lparr>like_user = u, like_createdAt = t\<rparr>])"
  by (simp add: post_toggleLike_def Let_def likes_post_save find_user_Some)

lemma comment_likes_comment_toggleLike:
  "comment_likes (comment_toggleLike m n u t c) =
     (if u \<in> like_user ` set (comment_likes c)
      then filter (\<lambda>l. like_user l \<noteq> u) (comment_likes c)
      else comment_likes c @ [\<lparr>like_user = u, like_createdAt = t\<rparr>])"
  by (simp add: comment_toggleLike_def Let_def comment_likes_comment_save find_user_Some)

lemma toggled_member:
  "(v \<in> like_user ` set (if u \<in> like_user ` set ls then filter (\<lambda>l. like_user l \<noteq> u) ls
      else ls @ [\<lparr>like_user = u, like_createdAt = t\<rparr>])) =
   (if v = u then u \<notin> like_user ` set ls else v \<in> like_user ` set ls)"
  by auto

lemma toggled_twice_length:
  assumes "likesOnce ls"
    and "ls' = (if u \<in> like_user ` set ls then filter (\<lambda>l. like_user l \<noteq> u) ls
      else ls @ [\<lparr>like_user = u, like_createdAt = t\<rparr>])"
  shows "length (if u \<in> like_user ` set ls' then filter (\<lambda>l. like_user l \<noteq> u) ls'
      else ls' @ [\<lparr>like_user = u, like_createdAt = t'\<rparr>]) = length ls"
proof (cases "u \<in> like_user ` set ls")
  case True
  then have "ls' = filter (\<lambda>l. like_user l \<noteq> u) ls"
    using assms(2) by simp
  moreover from this have "u \<notin> like_user ` set ls'" by auto
  ultimately show ?thesis
    using assms(1) True length_filter_other_users [of ls u]
    by (simp add: likesOnce_def)
next
  case False
  then have "ls' = ls @ [\<lparr>like_user = u, like_createdAt = t\<rparr>]"
    using assms(2) by simp
  moreover from this have "u \<in> like_user ` set ls'" by simp
  ultimately show ?thesis
    using False by (simp add: filter_absent_user)
qed

lemma toggled_likesOnce:
  "likesOnce ls \<Longrightarrow> likesOnce (if u \<in> like_user ` set ls then filter (\<lambda>l. like_user l \<noteq> u) ls
      else ls @ [\<lparr>like_user = u, like_createdAt = t\<rparr>])"
  by (auto simp: likesOnce_def distinct_map_filter)

text \<open>
  Claim C3: for a post and for a comment, a toggle by \<open>u\<close> makes \<open>u\<close> a member of
  the like set exactly when \<open>u\<close> was none and changes the membership of nobody else,
  and two toggles by \<open>u\<close> restore the membership of every user. Where the like list
  holds every user at most once (the like set of the data model: the empty default is
  one, and a toggle keeps it one), two toggles also restore the like count.
\<close>

theorem toggleLike_involution:
  "(post_isLikedBy v (post_toggleLike m n u t p) =
      (if v = u then \<not> post_isLikedBy u p else post_isLikedBy v p)) \<and>
   (post_isLikedBy v (post_toggleLike m' n' u t' (post_toggleLike m n u t p)) =
      post_isLikedBy v p) \<and>
   (likesOnce (likes p) \<longrightarrow>
      post_likeCount (post_toggleLike m' n' u t' (post_toggleLike m n u t p)) = post_likeCount p \<and>
      likesOnce (likes (post_toggleLike m n u t p))) \<and>
   (comment_isLikedBy v (comment_toggleLike m n u t c) =
      (if v = u then \<not> comment_isLikedBy u c else comment_isLikedBy v c)) \<and>
   (comment_isLikedBy v (comment_toggleLike m' n' u t' (comment_toggleLike m n u t c)) =
      comment_isLikedBy v c) \<and>
   (likesOnce (comment_likes c) \<longrightarrow>
      comment_likeCount (comment_toggleLike m' n' u t' (comment_toggleLike m n u t c)) =
        comment_likeCount c \<and>
      likesOnce (comment_likes (comment_toggleLike m n u t c)))"
proof -
  have p1: "post_isLikedBy v (post_toggleLike m n u t p) =
        (if v = u then \<not> post_isLikedBy u p else post_isLikedBy v p)" for v m n t p
    unfolding post_isLikedBy_def list_ex_user likes_post_toggleLike toggled_member by simp
  have p2: "post_isLikedBy v (post_toggleLike m' n' u t' (post_toggleLike m n u t p)) =
        post_isLikedBy v p"
    by (simp add: p1)
  have p3: "post_likeCount (post_toggleLike m' n' u t' (post_toggleLike m n u t p)) = post_likeCount p"
    if "likesOnce (likes p)"
    unfolding post_likeCount_def likes_post_toggleLike [of m' n']
    by (rule toggled_twice_length [OF that likes_post_toggleLike])
  have p4: "likesOnce (likes (post_toggleLike m n u t p))" if "likesOnce (likes p)"
    unfolding likes_post_toggleLike by (rule toggled_likesOnce [OF that])
  have c1: "comment_isLikedBy v (comment_toggleLike m n u t c) =
        (if v = u then \<not> comment_isLikedBy u c else comment_isLikedBy v c)" for v m n t c
    unfolding comment_isLikedBy_def list_ex_user comment_likes_comment_toggleLike toggled_member
    by simp
  have c2: "comment_isLikedBy v (comment_toggleLike m' n' u t' (comment_toggleLike m n u t c)) =
        comment_isLikedBy v c"
    by (simp add: c1)
  have c3: "comment_likeCount (comment_toggleLike m' n' u t' (comment_toggleLike m n u t c)) =
        comment_likeCount c" if "likesOnce (comment_likes c)"
    unfolding comment_likeCount_def comment_likes_comment_toggleLike [of m' n']
    by (rule toggled_twice_length [OF that comment_likes_comment_toggleLike])
  have c4: "likesOnce (comment_likes (comment_toggleLike m n u t c))"
    if "likesOnce (comment_likes c)"
    unfolding comment_likes_comment_toggleLike by (rule toggled_likesOnce [OF that])
  from p1 p2 p3 p4 c1 c2 c3 c4 show ?thesis by blast
qed

theorem toggleLike_involution_witness:
  "likesOnce (likes (examplePost\<lparr>likes := [\<lparr>like_user = ''u2'', like_createdAt = 1\<rparr>]\<rparr>)) \<and>
   likesOnce (comment_likes (exampleComment ''k1'' None True 10)) \<and>
   \<not> post_isLikedBy ''u2''
      (post_toggleLike {} False ''u2'' 2
        (examplePost\<lparr>likes := [\<lparr>like_user = ''u2'', like_createdAt = 1\<rparr>]\<rparr>)) \<and>
   post_likeCount
      (post_toggleLike {} False ''u2'' 3
        (post_toggleLike {} False ''u2'' 2
          (examplePost\<lparr>likes := [\<lparr>like_user = ''u2'', like_createdAt = 1\<rparr>]\<rparr>))) = 1 \<and>
   comment_isLikedBy ''u2''
      (comment_toggleLike {} False ''u2'' 2 (exampleComment ''k1'' None True 10)) \<and>
   comment_likeCount
      (comment_toggleLike {} False ''u2'' 3
        (comment_toggleLike {} False ''u2'' 2 (exampleComment ''k1'' None True 10))) = 0"
proof -
  let ?p = "examplePost\<lparr>likes := [\<lparr>like_user = ''u2'', like_createdAt = 1\<rparr>]\<rparr>"
  let ?c = "exampleComment ''k1'' None True 10"
  have h1: "likesOnce (likes ?p)" by (simp add: likesOnce_def)
  have h2: "likesOnce (comment_likes ?c)" by (simp add: likesOnce_def exampleComment_def)
  have e1: "post_isLikedBy ''u2'' ?p" by (simp add: post_isLikedBy_def)
  have e2: "post_likeCount ?p = 1" by (simp add: post_likeCount_def)
  have e3: "\<not> comment_isLikedBy ''u2'' ?c" by (simp add: comment_isLikedBy_def exampleComment_def)
  have e4: "comment_likeCount ?c = 0" by (simp add: comment_likeCount_def exampleComment_def)
  note t = toggleLike_involution [where p = ?p and c = ?c and v = "''u2''" and u = "''u2''"
      and m = "{}" and n = False and t = 2 and m' = "{}" and n' = False and t' = 3]
  from t e1 have c1: "\<not> post_isLikedBy ''u2'' (post_toggleLike {} False ''u2'' 2 ?p)" by simp
  from t h1 e2 have c2: "post_likeCount
      (post_toggleLike {} False ''u2'' 3 (post_toggleLike {} False ''u2'' 2 ?p)) = 1" by simp
  from t e3 have c3: "comment_isLikedBy ''u2'' (comment_toggleLike {} False ''u2'' 2 ?c)" by simp
  from t h2 e4 have c4: "comment_likeCount
      (comment_toggleLike {} False ''u2'' 3 (comment_toggleLike {} False ''u2'' 2 ?c)) = 0" by simp
  show ?thesis by (intro conjI h1 h2 c1 c2 c3 c4)
qed

section \<open>Cascading deletes (C4)\<close>

text \<open>
  Claim C4: removing a post removes every comment on it (and no other comment) and the
  post; removing a comment removes that comment and exactly the comments whose
  \<open>parentComment\<close> is that comment; a reply \<open>g\<close> to such a reply \<open>r\<close> stays
  while \<open>r\<close> goes.
\<close>

theorem remove_cascades:
  "(\<forall>c \<in> set (comments (post_remove p s)). comment_post c \<noteq> post_id p) \<and>
   (\<forall>c \<in> set (comments s). comment_post c \<noteq> post_id p \<longrightarrow> c \<in> set (comments (post_remove p s))) \<and>
   (\<forall>q \<in> set (posts (post_remove p s)). post_id q \<noteq> post_id p) \<and>
   set (comments (comment_remove c s)) =
     {r \<in> set (comments s). comment_id r \<noteq> comment_id c \<and> parentComment r \<noteq> Some (comment_id c)} \<and>
   (\<forall>r \<in> set (comments s). \<forall>g \<in> set (comments s).
      parentComment r = Some (comment_id c) \<and> parentComment g = Some (comment_id r) \<and>
      comment_id r \<noteq> comment_id c \<and> comment_id g \<noteq> comment_id c
      \<longrightarrow> r \<notin> set (comments (comment_remove c s)) \<and> g \<in> set (comments (comment_remove c s)))"
  by (auto simp: post_remove_def post_pre_remove_def comment_remove_def comment_pre_remove_def Let_def)

theorem remove_cascades_witness:
  "exampleComment ''k2'' (Some ''k1'') True 20 \<in> set (comments exampleStore) \<and>
   exampleComment ''k3'' (Some ''k2'') True 30 \<in> set (comments exampleStore) \<and>
   parentComment (exampleComment ''k2'' (Some ''k1'') True 20) =
     Some (comment_id (exampleComment ''k1'' None True 10)) \<and>
   parentComment (exampleComment ''k3'' (Some ''k2'') True 30) =
     Some (comment_id (exampleComment ''k2'' (Some ''k1'') True 20)) \<and>
   exampleComment ''k2'' (Some ''k1'') True 20 \<notin>
     set (comments (comment_remove (exampleComment ''k1'' None True 10) exampleStore)) \<and>
   exampleComment ''k3'' (Some ''k2'') True 30 \<in>
     set (comments (comment_remove (exampleComment ''k1'' None True 10) exampleStore)) \<and>
   exampleComment ''k1'' None True 10 \<in> set (comments exampleStore) \<and>
   exampleComment ''k1'' None True 10 \<notin> set (comments (post_remove examplePost exampleStore))"
proof -
  let ?c = "exampleComment ''k1'' None True 10"
  let ?r = "exampleComment ''k2'' (Some ''k1'') True 20"
  let ?g = "exampleComment ''k3'' (Some ''k2'') True 30"
  have h1: "?r \<in> set (comments exampleStore)" by (simp add: exampleStore_def)
  have h2: "?g \<in> set (comments exampleStore)" by (simp add: exampleStore_def)
  have h3: "parentComment ?r = Some (comment_id ?c)" by (simp add: exampleComment_def)
  have h4: "parentComment ?g = Some (comment_id ?r)" by (simp add: exampleComment_def)
  have h5: "comment_id ?r \<noteq> comment_id ?c" "comment_id ?g \<noteq> comment_id ?c"
    by (simp_all add: exampleComment_def)
  have h6: "post_id examplePost = ''p1''" by (simp add: examplePost_def)
  note t = remove_cascades [where p = examplePost and s = exampleStore and c = ?c]
  from t h1 h2 h3 h4 h5 have c1:
    "?r \<notin> set (comments (comment_remove ?c exampleStore)) \<and>
     ?g \<in> set (comments (comment_remove ?c exampleStore))"
    by blast
  have h7: "?c \<in> set (comments exampleStore)" by (simp add: exampleStore_def)
  have h8: "comment_post ?c = ''p1''" by (simp add: exampleComment_def)
  from t h6 h8 have c2: "?c \<notin> set (comments (post_remove examplePost exampleStore))"
    by auto
  from h1 h2 h3 h4 c1 h7 c2 show ?thesis by (intro conjI) simp_all
qed

section \<open>Removing a category (C5)\<close>

text \<open>
  Claim C5: removing a category is refused exactly when some post of the category has a
  status other than archived. The refusal carries the status code 400 and the message,
  and leaves the store as it was; otherwise the category is removed, and the posts and
  comments stay as they were.
\<close>

theorem category_remove_guard:
  "(fst (category_remove c s) \<noteq> None) =
     (\<exists>p \<in> set (posts s). category p = category_id c \<and> status p \<noteq> Archived) \<and>
   (fst (category_remove c s) \<noteq> None \<longrightarrow>
      category_remove c s =
        (Some \<lparr>statusCode = Some 400,
               message = ''Cannot delete category that has active posts. Please move or delete the posts first.''\<rparr>, s)) \<and>
   (fst (category_remove c s) = None \<longrightarrow>
      posts (snd (category_remove c s)) = posts s \<and>
      comments (snd (category_remove c s)) = comments s \<and>
      set (categories (snd (category_remove c s))) =
        {d \<in> set (categories s). category_id d \<noteq> category_id c})"
proof -
  have "(filter (\<lambda>p. category p = category_id c \<and> status p \<noteq> Archived) (posts s) \<noteq> []) =
        (\<exists>p \<in> set (posts s). category p = category_id c \<and> status p \<noteq> Archived)"
    by (auto simp: filter_empty_conv)
  then show ?thesis
    by (auto simp: category_remove_def category_pre_remove_def Let_def)
qed

theorem category_remove_guard_witness:
  "(\<exists>p \<in> set (posts exampleStore).
      category p = category_id exampleCategory \<and> status p \<noteq> Archived) \<and>
   fst (category_remove exampleCategory exampleStore) \<noteq> None \<and>
   snd (category_remove exampleCategory exampleStore) = exampleStore \<and>
   \<not> (\<exists>p \<in> set (posts (exampleStore\<lparr>posts := [examplePost\<lparr>status := Archived\<rparr>]\<rparr>)).
      category p = category_id exampleCategory \<and> status p \<noteq> Archived) \<and>
   fst (category_remove exampleCategory
          (exampleStore\<lparr>posts := [examplePost\<lparr>status := Archived\<rparr>]\<rparr>)) = None \<and>
   posts (snd (category_remove exampleCategory
          (exampleStore\<lparr>posts := [examplePost\<lparr>status := Archived\<rparr>]\<rparr>))) =
     [examplePost\<lparr>status := Archived\<rparr>]"
proof -
  let ?s = "exampleStore\<lparr>posts := [examplePost\<lparr>status := Archived\<rparr>]\<rparr>"
  have h1: "\<exists>p \<in> set (posts exampleStore).
      category p = category_id exampleCategory \<and> status p \<noteq> Archived"
    by (simp add: exampleStore_def examplePost_def exampleCategory_def)
  have h2: "\<not> (\<exists>p \<in> set (posts ?s).
      category p = category_id exampleCategory \<and> status p \<noteq> Archived)"
    by simp
  note t1 = category_remove_guard [where c = exampleCategory and s = exampleStore]
  note t2 = category_remove_guard [where c = exampleCategory and s = ?s]
  from t1 h1 have c1: "fst (category_remove exampleCategory exampleStore) \<noteq> None" by blast
  with t1 have c2: "snd (category_remove exampleCategory exampleStore) = exampleStore" by simp
  from t2 h2 have c3: "fst (category_remove exampleCategory ?s) = None" by blast
  with t2 have c4: "posts (snd (category_remove exampleCategory ?s)) =
     [examplePost\<lparr>status := Archived\<rparr>]" by simp
  show ?thesis by (intro conjI h1 h2 c1 c2 c3 c4)
qed

section \<open>Pagination (C6)\<close>

lemma finite_less_ceiling:
  assumes "0 < l"
  shows "(int p < \<lceil>real t / real l\<rceil>) = (p * l < t)"
proof -
  have "(int p < \<lceil>real t / real l\<rceil>) = (real p < real t / real l)"
    by (simp add: less_ceiling_iff)
  also have "\<dots> = (real p * real l < real t)"
    using assms by (simp add: pos_less_divide_eq)
  also have "\<dots> = (p * l < t)"
    by (metis of_nat_less_iff of_nat_mult)
  finally show ?thesis .
qed

text \<open>
  Claim C6: for a page \<open>p \<ge> 1\<close>, a limit \<open>l \<ge> 1\<close> and \<open>t\<close> matching posts, the
  pagination object has \<open>currentPage = p\<close>, \<open>totalPosts = t\<close>,
  \<open>totalPages = \<lceil>t / l\<rceil>\<close>, \<open>hasNextPage\<close> exactly when \<open>p < \<lceil>t / l\<rceil>\<close> (that is,
  when posts remain after page \<open>p\<close>) and \<open>hasPrevPage\<close> exactly when \<open>p > 1\<close>;
  page 2 of 25 posts, 10 to a page, has 3 pages, a next and a previous one.
\<close>

theorem getAllPosts_pagination_meta:
  assumes "1 \<le> p" and "1 \<le> l"
    and "q_page q = Some p" and "q_limit q = Some l"
    and "t = length (filter (getAllPosts_matches regexTest q) (posts s))"
  shows "getAllPosts regexTest q s =
           \<lparr>currentPage = p, totalPages = Finite \<lceil>real t / real l\<rceil>, totalPosts = t,
            hasNextPage = (int p < \<lceil>real t / real l\<rceil>), hasPrevPage = (1 < p)\<rparr> \<and>
         hasNextPage (getAllPosts regexTest q s) = (p * l < t) \<and>
         getAllPosts_pagination (Some 2) (Some 10) 25 =
           \<lparr>currentPage = 2, totalPages = Finite 3, totalPosts = 25,
            hasNextPage = True, hasPrevPage = True\<rparr>"
proof -
  have a: "getAllPosts regexTest q s =
           \<lparr>currentPage = p, totalPages = Finite \<lceil>real t / real l\<rceil>, totalPosts = t,
            hasNextPage = (int p < \<lceil>real t / real l\<rceil>), hasPrevPage = (1 < p)\<rparr>"
    using assms
    by (simp add: getAllPosts_def getAllPosts_pagination_def ceilOfQuotient_def
        lessThanNumber_def Let_def)
  have b: "hasNextPage (getAllPosts regexTest q s) = (p * l < t)"
    using assms(2) by (simp add: a finite_less_ceiling)
  have c: "getAllPosts_pagination (Some 2) (Some 10) 25 =
           \<lparr>currentPage = 2, totalPages = Finite 3, totalPosts = 25,
            hasNextPage = True, hasPrevPage = True\<rparr>"
    by (simp add: getAllPosts_pagination_def ceilOfQuotient_def lessThanNumber_def)
  from a b c show ?thesis by simp
qed

theorem getAllPosts_pagination_meta_witness:
  "(1::nat) \<le> 2 \<and> (1::nat) \<le> 1 \<and>
   getAllPosts (\<lambda>pattern text. False)
     \<lparr>q_page = Some 2, q_limit = Some 1, q_category = None, q_author = None,
      q_status = Some ''draft'', q_search = None, q_featured = None\<rparr>
     (exampleStore\<lparr>posts := [examplePost, examplePost\<lparr>post_id := ''p2''\<rparr>,
                              examplePost\<lparr>post_id := ''p3''\<rparr>]\<rparr>) =
     \<lparr>currentPage = 2, totalPages = Finite 3, totalPosts = 3,
      hasNextPage = True, hasPrevPage = True\<rparr>"
proof -
  let ?q = "\<lparr>q_page = Some 2, q_limit = Some 1, q_category = None, q_author = None,
      q_status = Some ''draft'', q_search = None, q_featured = None\<rparr>"
  let ?s = "exampleStore\<lparr>posts := [examplePost, examplePost\<lparr>post_id := ''p2''\<rparr>,
                              examplePost\<lparr>post_id := ''p3''\<rparr>]\<rparr>"
  have h1: "(1::nat) \<le> 2" by simp
  have h2: "(1::nat) \<le> 1" by simp
  have h3: "q_page ?q = Some 2" by simp
  have h4: "q_limit ?q = Some 1" by simp
  have h5: "3 = length (filter (getAllPosts_matches (\<lambda>pattern text. False) ?q) (posts ?s))"
    by (simp add: getAllPosts_matches_def examplePost_def statusName_def truthy_def)
  from getAllPosts_pagination_meta [OF h1 h2 h3 h4 h5]
  have "getAllPosts (\<lambda>pattern text. False) ?q ?s =
     \<lparr>currentPage = 2, totalPages = Finite 3, totalPosts = 3,
      hasNextPage = True, hasPrevPage = True\<rparr>"
    by simp
  with h1 h2 show ?thesis by (intro conjI)
qed

section \<open>Reading time (C7)\<close>

text \<open>
  Claim C7: when the content changes on the save path, \<open>readTime\<close> is
  \<open>\<lceil>wordCount / 200\<rceil>\<close> for the number of whitespace-separated words of the content;
  200 words give 1. The hook counts the pieces of \<^verbatim>\<open>split(/\s+/)\<close>, which are one more
  than the words for whitespace at either end (\<open>length_splitSpaceRuns\<close>): a post
  created with 200 words followed by a line feed gets the reading time 2.
\<close>

theorem readTime_trailing_newline:
  "spec_wordCount (wordsText 200 @ [CHR 0x0A]) = 200 \<and>
   ceilDiv 200 wordsPerMinute = 1 \<and>
   length (split (wordsText 200 @ [CHR 0x0A])) = 201 \<and>
   map_sum message readTime
     (Post_create (examplePost\<lparr>content := wordsText 200 @ [CHR 0x0A]\<rparr>) 1000) = Inr 2"
proof -
  have a: "spec_wordCount (wordsText 200 @ [CHR 0x0A]) = 200"
    by (simp add: wordsText_facts)
  have b: "ceilDiv 200 wordsPerMinute = 1"
    by (simp add: ceilDiv_def wordsPerMinute_def)
  have c: "length (split (wordsText 200 @ [CHR 0x0A])) = 201"
    by (simp add: split_wordsText)
  have v: "validContent (content (examplePost\<lparr>content := wordsText 200 @ [CHR 0x0A]\<rparr>))"
    by (simp add: validContent_def wordsText_facts)
  have d: "map_sum message readTime
     (Post_create (examplePost\<lparr>content := wordsText 200 @ [CHR 0x0A]\<rparr>) 1000) = Inr 2"
    using readTime_Post_create [OF examplePost_valid(1) v examplePost_valid(2), of 1000]
    by (simp add: c ceilDiv_def)
  show ?thesis by (intro conjI a b c d)
qed

text \<open>
  Without whitespace at the ends, the examples of the claim hold.
\<close>

lemma readTime_clean_examples:
  "map_sum message readTime (Post_create (examplePost\<lparr>content := wordsText 200\<rparr>) 1000) = Inr 1"
  "map_sum message readTime (Post_create (examplePost\<lparr>content := wordsText 401\<rparr>) 1000) = Inr 3"
proof -
  have v: "validContent (content (examplePost\<lparr>content := wordsText 200\<rparr>))"
          "validContent (content (examplePost\<lparr>content := wordsText 401\<rparr>))"
    by (simp_all add: validContent_def wordsText_facts)
  show "map_sum message readTime (Post_create (examplePost\<lparr>content := wordsText 200\<rparr>) 1000) = Inr 1"
    using readTime_Post_create [OF examplePost_valid(1) v(1) examplePost_valid(2), of 1000]
    by (simp add: split_wordsText ceilDiv_def)
  show "map_sum message readTime (Post_create (examplePost\<lparr>content := wordsText 401\<rparr>) 1000) = Inr 3"
    using readTime_Post_create [OF examplePost_valid(1) v(2) examplePost_valid(2), of 1000]
    by (simp add: split_wordsText ceilDiv_def)
qed

section \<open>Comment queries (C8)\<close>

lemma set_sortComments: "set (sortComments k ord cs) = set cs"
  by (cases ord) (simp_all add: sortComments_def)

lemma in_set_limitToD: "x \<in> set (limitTo n xs) \<Longrightarrow> x \<in> set xs"
  by (cases "n = 0") (auto simp: limitTo_def dest: in_set_takeD)

lemma findByPost_Inr:
  assumes "findByPost postId options cs = Inr rs"
  shows "\<exists>n k key ord inc. rs = limitTo n (drop k (sortComments key ord
           (filter (\<lambda>c. comment_post c = postId \<and> isApproved c \<and>
                         (inc \<or> parentComment c = None)) cs))) \<and>
           inc = (case opt_includeReplies options of None \<Rightarrow> False | Some v \<Rightarrow> v)"
proof -
  let ?skip = "(int (case opt_page options of None \<Rightarrow> 1 | Some v \<Rightarrow> v) - 1) *
               int (case opt_limit options of None \<Rightarrow> 10 | Some v \<Rightarrow> v)"
  have "\<not> ?skip < 0"
    using assms unfolding findByPost_def Let_def by (cases "?skip < 0") simp_all
  then have "rs = limitTo (case opt_limit options of None \<Rightarrow> 10 | Some v \<Rightarrow> v)
      (drop (nat ?skip)
        (sortComments (case opt_sortBy options of None \<Rightarrow> comment_createdAt | Some v \<Rightarrow> v)
          (case opt_sortOrder options of None \<Rightarrow> Descending | Some v \<Rightarrow> v)
          (filter (\<lambda>c. comment_post c = postId \<and> isApproved c \<and>
             ((case opt_includeReplies options of None \<Rightarrow> False | Some v \<Rightarrow> v) \<or>
              parentComment c = None)) cs)))"
    using assms unfolding findByPost_def Let_def by simp
  then show ?thesis by blast
qed

lemma findByPost_total:
  assumes "opt_page options \<noteq> Some 0"
  shows "\<exists>rs. findByPost postId options cs = Inr rs"
proof -
  have "1 \<le> (case opt_page options of None \<Rightarrow> 1 | Some v \<Rightarrow> v)"
    using assms by (cases "opt_page options") auto
  then have "\<not> (int (case opt_page options of None \<Rightarrow> 1 | Some v \<Rightarrow> v) - 1) *
               int (case opt_limit options of None \<Rightarrow> 10 | Some v \<Rightarrow> v) < 0"
    by (simp add: mult_less_0_iff)
  then show ?thesis
    unfolding findByPost_def Let_def by simp
qed

text \<open>
  Claim C8: every comment that \<open>findByPost\<close> returns is an approved comment of the
  post and, unless replies are asked for, has no parent; the query answers for every
  page from 1 on. \<open>findReplies\<close> returns exactly the approved comments whose
  \<open>parentComment\<close> is the given comment, each once, oldest first.
\<close>

theorem comment_queries:
  "(findByPost postId options cs = Inr rs \<longrightarrow>
      (\<forall>c \<in> set rs. c \<in> set cs \<and> comment_post c = postId \<and> isApproved c \<and>
         (opt_includeReplies options \<noteq> Some True \<longrightarrow> parentComment c = None))) \<and>
   (opt_page options \<noteq> Some 0 \<longrightarrow> (\<exists>rs. findByPost postId options cs = Inr rs)) \<and>
   set (findReplies commentId cs) =
     {c \<in> set cs. parentComment c = Some commentId \<and> isApproved c} \<and>
   mset (findReplies commentId cs) =
     mset (filter (\<lambda>c. parentComment c = Some commentId \<and> isApproved c) cs) \<and>
   sorted (map comment_createdAt (findReplies commentId cs))"
proof -
  have a: "findByPost postId options cs = Inr rs \<longrightarrow>
      (\<forall>c \<in> set rs. c \<in> set cs \<and> comment_post c = postId \<and> isApproved c \<and>
         (opt_includeReplies options \<noteq> Some True \<longrightarrow> parentComment c = None))"
  proof (intro impI ballI)
    fix c
    assume r: "findByPost postId options cs = Inr rs" and c: "c \<in> set rs"
    from findByPost_Inr [OF r] obtain n k key ord inc where
      rs: "rs = limitTo n (drop k (sortComments key ord
           (filter (\<lambda>c. comment_post c = postId \<and> isApproved c \<and>
                         (inc \<or> parentComment c = None)) cs)))"
      and inc: "inc = (case opt_includeReplies options of None \<Rightarrow> False | Some v \<Rightarrow> v)"
      by blast
    from c rs have "c \<in> set (drop k (sortComments key ord
           (filter (\<lambda>c. comment_post c = postId \<and> isApproved c \<and>
                         (inc \<or> parentComment c = None)) cs)))"
      by (auto dest: in_set_limitToD)
    then have "c \<in> set (sortComments key ord
           (filter (\<lambda>c. comment_post c = postId \<and> isApproved c \<and>
                         (inc \<or> parentComment c = None)) cs))"
      by (rule in_set_dropD)
    then have m: "c \<in> set cs \<and> comment_post c = postId \<and> isApproved c \<and>
                         (inc \<or> parentComment c = None)"
      by (simp add: set_sortComments)
    have "opt_includeReplies options \<noteq> Some True \<Longrightarrow> \<not> inc"
      using inc by (cases "opt_includeReplies options") auto
    with m show "c \<in> set cs \<and> comment_post c = postId \<and> isApproved c \<and>
         (opt_includeReplies options \<noteq> Some True \<longrightarrow> parentComment c = None)"
      by blast
  qed
  have b: "opt_page options \<noteq> Some 0 \<longrightarrow> (\<exists>rs. findByPost postId options cs = Inr rs)"
    using findByPost_total by blast
  have c: "set (findReplies commentId cs) =
     {c \<in> set cs. parentComment c = Some commentId \<and> isApproved c}"
    by (auto simp: findReplies_def)
  have d: "mset (findReplies commentId cs) =
     mset (filter (\<lambda>c. parentComment c = Some commentId \<and> isApproved c) cs)"
    by (simp add: findReplies_def)
  have e: "sorted (map comment_createdAt (findReplies commentId cs))"
    by (simp add: findReplies_def)
  show ?thesis by (intro conjI a b c d e)
qed

theorem comment_queries_witness:
  "findByPost ''p1''
     \<lparr>opt_page = None, opt_limit = None, opt_sortBy = None, opt_sortOrder = None,
      opt_includeReplies = Some False\<rparr> (comments exampleStore) =
     Inr [exampleComment ''k1'' None True 10] \<and>
   exampleComment ''k1'' None True 10 \<in> set [exampleComment ''k1'' None True 10] \<and>
   opt_includeReplies
     \<lparr>opt_page = None, opt_limit = None, opt_sortBy = None, opt_sortOrder = None,
      opt_includeReplies = Some False\<rparr> \<noteq> Some True \<and>
   isApproved (exampleComment ''k1'' None True 10) \<and>
   parentComment (exampleComment ''k1'' None True 10) = None \<and>
   set (findReplies ''k1'' (comments exampleStore)) =
     {exampleComment ''k2'' (Some ''k1'') True 20}"
proof -
  let ?o = "\<lparr>opt_page = None, opt_limit = None, opt_sortBy = None, opt_sortOrder = None,
      opt_includeReplies = Some False\<rparr>"
  let ?k = "exampleComment ''k1'' None True 10"
  have h1: "findByPost ''p1'' ?o (comments exampleStore) = Inr [?k]"
    by (simp add: findByPost_def exampleStore_def exampleComment_def sortComments_def
        limitTo_def Let_def)
  have h2: "?k \<in> set [?k]" by simp
  have h3: "opt_includeReplies ?o \<noteq> Some True" by simp
  have e: "{c \<in> set (comments exampleStore). parentComment c = Some ''k1'' \<and> isApproved c} =
           {exampleComment ''k2'' (Some ''k1'') True 20}"
    by (auto simp: exampleStore_def exampleComment_def)
  note t = comment_queries [where postId = "''p1''" and options = ?o
      and cs = "comments exampleStore" and rs = "[?k]" and commentId = "''k1''"]
  from t h1 h2 h3 have c1: "isApproved ?k \<and> parentComment ?k = None" by blast
  from t e have c2: "set (findReplies ''k1'' (comments exampleStore)) =
     {exampleComment ''k2'' (Some ''k1'') True 20}" by simp
  from h1 h2 h3 c1 c2 show ?thesis by (intro conjI) simp_all
qed

section \<open>Categories with their post counts (C9)\<close>

lemma addPostCount_sel:
  "category_id (addPostCount c ns) = category_id c"
  "name (addPostCount c ns) = name c"
  "sortOrder (addPostCount c ns) = sortOrder c"
  "isActive (addPostCount c ns) = isActive c"
  "postCount (addPostCount c ns) = (case ns of [] \<Rightarrow> 0 | n # _ \<Rightarrow> n)"
  "category.truncate (addPostCount c ns) = c"
  by (simp_all add: addPostCount_def category.defs categoryWithCount.defs)

lemma lookupPosts_count:
  "(case lookupPosts c ps of [] \<Rightarrow> 0 | n # _ \<Rightarrow> n) =
     length (filter (\<lambda>p. category p = category_id c \<and> status p = Published) ps)"
  by (simp add: lookupPosts_def Let_def conj_commute)

text \<open>
  Claim C9: \<open>withPostCounts\<close> returns the active categories, each once, each with
  the number of published posts of the category as \<open>postCount\<close> (draft and archived
  posts do not count; no published post gives 0), ordered by \<open>sortOrder\<close>, then
  \<open>name\<close>.
\<close>

theorem withPostCounts_counts:
  "mset (map category.truncate (withPostCounts s)) = mset (filter isActive (categories s)) \<and>
   (\<forall>r \<in> set (withPostCounts s).
      isActive r \<and>
      postCount r =
        length (filter (\<lambda>p. category p = category_id r \<and> status p = Published) (posts s))) \<and>
   sorted (map (\<lambda>r. (sortOrder r, name r)) (withPostCounts s))"
proof -
  have a: "mset (map category.truncate (withPostCounts s)) = mset (filter isActive (categories s))"
    by (simp add: withPostCounts_def multiset.map_comp o_def addPostCount_sel)
  have b: "\<forall>r \<in> set (withPostCounts s).
      isActive r \<and>
      postCount r =
        length (filter (\<lambda>p. category p = category_id r \<and> status p = Published) (posts s))"
    by (auto simp: withPostCounts_def addPostCount_sel lookupPosts_count)
  have c: "sorted (map (\<lambda>r. (sortOrder r, name r)) (withPostCounts s))"
    by (simp add: withPostCounts_def)
  from a b c show ?thesis by blast
qed

theorem withPostCounts_counts_witness:
  "addPostCount exampleCategory [1] \<in>
     set (withPostCounts (exampleStore\<lparr>posts :=
        [examplePost\<lparr>status := Published\<rparr>, examplePost\<lparr>post_id := ''p2''\<rparr>,
         examplePost\<lparr>post_id := ''p3'', status := Archived\<rparr>]\<rparr>)) \<and>
   postCount (addPostCount exampleCategory [1]) = 1 \<and>
   length (filter (\<lambda>p. category p = category_id exampleCategory \<and> status p = Published)
     (posts (exampleStore\<lparr>posts :=
        [examplePost\<lparr>status := Published\<rparr>, examplePost\<lparr>post_id := ''p2''\<rparr>,
         examplePost\<lparr>post_id := ''p3'', status := Archived\<rparr>]\<rparr>))) = 1"
proof -
  let ?s = "exampleStore\<lparr>posts :=
        [examplePost\<lparr>status := Published\<rparr>, examplePost\<lparr>post_id := ''p2''\<rparr>,
         examplePost\<lparr>post_id := ''p3'', status := Archived\<rparr>]\<rparr>"
  let ?r = "addPostCount exampleCategory [1]"
  have id: "category_id ?r = category_id exampleCategory"
    by (simp add: addPostCount_sel)
  have h: "?r \<in> set (withPostCounts ?s)"
    by (simp add: withPostCounts_def exampleStore_def lookupPosts_def examplePost_def
        exampleCategory_def Let_def)
  from withPostCounts_counts [where s = ?s] h
  have "postCount ?r =
      length (filter (\<lambda>p. category p = category_id ?r \<and> status p = Published) (posts ?s))"
    by blast
  moreover have "postCount ?r = 1" by (simp add: addPostCount_sel)
  ultimately have "length (filter (\<lambda>p. category p = category_id exampleCategory \<and>
      status p = Published) (posts ?s)) = 1"
    by (simp only: id)
  with h \<open>postCount ?r = 1\<close> show ?thesis by (intro conjI)
qed

section \<open>Looking a post up (C10)\<close>

text \<open>
  Claim C10: \<open>getPost\<close> looks the post up by \<open>_id\<close> exactly when the identifier
  passes the validity test, and by slug (the lower-cased identifier) otherwise. So a
  valid identifier that is the \<open>_id\<close> of no post is answered with 404 whatever the
  slugs are, a post returned for a valid identifier is the one with that \<open>_id\<close>, and
  a post whose slug is valid is not returned for its slug (unless the slug denotes its
  own \<open>_id\<close>); nor is it returned by a lookup by slug, for an identifier that fails
  the test as given and lower-cased.
\<close>

theorem getPost_lookup:
  "(isValid ident \<longrightarrow>
      fst (getPost isValid castId ident s) =
        (case find (\<lambda>p. post_id p = castId ident) (posts s) of
           None \<Rightarrow> Failure 404 ''Post not found'' | Some p \<Rightarrow> Success 200 p)) \<and>
   (\<not> isValid ident \<longrightarrow>
      fst (getPost isValid castId ident s) =
        (case find (\<lambda>p. slug p = toLowerCase ident) (posts s) of
           None \<Rightarrow> Failure 404 ''Post not found'' | Some p \<Rightarrow> Success 200 p)) \<and>
   (isValid ident \<and> (\<forall>p \<in> set (posts s). post_id p \<noteq> castId ident) \<longrightarrow>
      fst (getPost isValid castId ident s) = Failure 404 ''Post not found'') \<and>
   (isValid ident \<and> fst (getPost isValid castId ident s) = Success 200 p \<longrightarrow>
      post_id p = castId ident) \<and>
   (isValid (slug q) \<and> post_id q \<noteq> castId (slug q) \<longrightarrow>
      fst (getPost isValid castId (slug q) s) \<noteq> Success 200 q) \<and>
   (\<not> isValid ident \<and> \<not> isValid (toLowerCase ident) \<and> isValid (slug q) \<longrightarrow>
      fst (getPost isValid castId ident s) \<noteq> Success 200 q)"
proof -
  have v: "isValid ident \<Longrightarrow>
      fst (getPost isValid castId ident s) =
        (case find (\<lambda>p. post_id p = castId ident) (posts s) of
           None \<Rightarrow> Failure 404 ''Post not found'' | Some p \<Rightarrow> Success 200 p)" for ident
    by (simp add: getPost_def Let_def split: option.split)
  have w: "\<not> isValid ident \<Longrightarrow>
      fst (getPost isValid castId ident s) =
        (case find (\<lambda>p. slug p = toLowerCase ident) (posts s) of
           None \<Rightarrow> Failure 404 ''Post not found'' | Some p \<Rightarrow> Success 200 p)"
    by (simp add: getPost_def Let_def split: option.split)
  have a: "post_id p = castId ident"
    if "isValid ident" and "fst (getPost isValid castId ident s) = Success 200 p" for ident p
  proof (cases "find (\<lambda>p. post_id p = castId ident) (posts s)")
    case None
    with that v [of ident] show ?thesis by simp
  next
    case (Some r)
    with that v [of ident] have "r = p" by simp
    with Some show ?thesis by (auto simp: find_Some_iff)
  qed
  have d: "isValid (slug q) \<and> post_id q \<noteq> castId (slug q) \<longrightarrow>
      fst (getPost isValid castId (slug q) s) \<noteq> Success 200 q"
    using a [of "slug q" q] by blast
  have b: "fst (getPost isValid castId ident s) = Failure 404 ''Post not found''"
    if "isValid ident" and "\<forall>p \<in> set (posts s). post_id p \<noteq> castId ident"
  proof -
    from that(2) have "find (\<lambda>p. post_id p = castId ident) (posts s) = None"
      by (simp add: find_None_iff)
    with that(1) v [of ident] show ?thesis by simp
  qed
  have e: "fst (getPost isValid castId ident s) \<noteq> Success 200 q"
    if n: "\<not> isValid ident" and l: "\<not> isValid (toLowerCase ident)" and q: "isValid (slug q)"
  proof
    assume r: "fst (getPost isValid castId ident s) = Success 200 q"
    show False
    proof (cases "find (\<lambda>p. slug p = toLowerCase ident) (posts s)")
      case None
      with n r w show False by simp
    next
      case (Some r')
      with n r w have "r' = q" by simp
      with Some have "slug q = toLowerCase ident" by (auto simp: find_Some_iff)
      with l q show False by simp
    qed
  qed
  show ?thesis using v [of ident] w a [of ident p] b d e by (intro conjI impI) auto
qed

theorem getPost_lookup_witness:
  "hexString24 ''0123456789abcdef01234567'' \<and>
   list_all (\<lambda>p. post_id p \<noteq> ''0123456789abcdef01234567'')
     (posts (exampleStore\<lparr>posts := [examplePost\<lparr>slug := ''0123456789abcdef01234567''\<rparr>]\<rparr>)) \<and>
   slug (examplePost\<lparr>slug := ''0123456789abcdef01234567''\<rparr>) = ''0123456789abcdef01234567'' \<and>
   fst (getPost hexString24 (\<lambda>x. x) ''0123456789abcdef01234567''
          (exampleStore\<lparr>posts := [examplePost\<lparr>slug := ''0123456789abcdef01234567''\<rparr>]\<rparr>)) =
     Failure 404 ''Post not found'' \<and>
   \<not> hexString24 ''HELLO-WORLD-1000'' \<and>
   \<not> hexString24 (toLowerCase ''HELLO-WORLD-1000'') \<and>
   fst (getPost hexString24 (\<lambda>x. x) ''HELLO-WORLD-1000''
          (exampleStore\<lparr>posts := [examplePost\<lparr>slug := ''hello-world-1000''\<rparr>]\<rparr>)) =
     Success 200 (examplePost\<lparr>slug := ''hello-world-1000''\<rparr>) \<and>
   fst (getPost hexString24 (\<lambda>x. x) ''HELLO-WORLD-1000''
          (exampleStore\<lparr>posts := [examplePost\<lparr>slug := ''0123456789abcdef01234567''\<rparr>]\<rparr>)) \<noteq>
     Success 200 (examplePost\<lparr>slug := ''0123456789abcdef01234567''\<rparr>)"
proof -
  let ?h = "''0123456789abcdef01234567''"
  let ?q = "examplePost\<lparr>slug := ?h\<rparr>"
  let ?s = "exampleStore\<lparr>posts := [?q]\<rparr>"
  let ?s' = "exampleStore\<lparr>posts := [examplePost\<lparr>slug := ''hello-world-1000''\<rparr>]\<rparr>"
  have h1: "hexString24 ?h" by code_simp
  have h2': "list_all (\<lambda>p. post_id p \<noteq> ?h) (posts ?s)"
    by (simp add: examplePost_def)
  then have h2: "\<forall>p \<in> set (posts ?s). post_id p \<noteq> (\<lambda>x. x) ?h"
    by (simp add: list_all_iff)
  have h3: "slug ?q = ?h" by simp
  have h4: "\<not> hexString24 ''HELLO-WORLD-1000''" by (simp add: hexString24_def)
  have h5: "\<not> hexString24 (toLowerCase ''HELLO-WORLD-1000'')"
    by (simp add: hexString24_def toLowerCase_def)
  have h6: "toLowerCase ''HELLO-WORLD-1000'' = ''hello-world-1000''" by code_simp
  have h7: "isValid (slug ?q) = isValid ?h" for isValid :: "string \<Rightarrow> bool" by simp
  from getPost_lookup [where isValid = hexString24 and castId = "\<lambda>x. x"
      and ident = ?h and s = ?s] h1 h2
  have c1: "fst (getPost hexString24 (\<lambda>x. x) ?h ?s) = Failure 404 ''Post not found''"
    by blast
  from getPost_lookup [where isValid = hexString24 and castId = "\<lambda>x. x"
      and ident = "''HELLO-WORLD-1000''" and s = ?s'] h4
  have "fst (getPost hexString24 (\<lambda>x. x) ''HELLO-WORLD-1000'' ?s') =
        (case find (\<lambda>p. slug p = toLowerCase ''HELLO-WORLD-1000'') (posts ?s') of
           None \<Rightarrow> Failure 404 ''Post not found'' | Some p \<Rightarrow> Success 200 p)"
    by blast
  then have c2: "fst (getPost hexString24 (\<lambda>x. x) ''HELLO-WORLD-1000'' ?s') =
     Success 200 (examplePost\<lparr>slug := ''hello-world-1000''\<rparr>)"
    by (simp add: h6)
  from getPost_lookup [where isValid = hexString24 and castId = "\<lambda>x. x"
      and ident = "''HELLO-WORLD-1000''" and s = ?s and q = ?q] h4 h5 h1 h7 [of hexString24]
  have c3: "fst (getPost hexString24 (\<lambda>x. x) ''HELLO-WORLD-1000'' ?s) \<noteq> Success 200 ?q"
    by blast
  show ?thesis by (intro conjI h1 h2' h3 h4 h5 c1 c2 c3)
qed

end
